theory Spec2Isabelle
  imports Complex_Main "HOL-Library.Char_ord" "HOL-Library.List_Lexorder"
begin

section \<open>Python numbers, exceptions and dictionaries\<close>

text \<open>
  The planner of \<^verbatim>\<open>ds_stat_soul_tool_gui.py\<close> consists of the three functions
  \<^verbatim>\<open>compute_common_r\<close>, \<^verbatim>\<open>continuous_targets\<close> and
  \<^verbatim>\<open>greedy_next_stat_to_increment\<close>.

  Numbers. A Python number (an \<^verbatim>\<open>int\<close> or a finite \<^verbatim>\<open>float\<close>) is read as the real
  number it denotes. The finite floats end below \<open>2\<^sup>1\<^sup>0\<^sup>2\<^sup>4 - 2\<^sup>9\<^sup>7\<^sup>0\<close>: a real of at least
  that magnitude rounds to no finite float. The model follows what Python does there:
  \<^item> converting an \<^verbatim>\<open>int\<close> of that magnitude to a float (\<^verbatim>\<open>float(L)\<close>, or the
    \<^verbatim>\<open>int\<close> operand of a mixed operation) raises \<^verbatim>\<open>OverflowError\<close>;
  \<^item> \<^verbatim>\<open>math.exp\<close> raises \<^verbatim>\<open>OverflowError\<close> when its result is that large;
  \<^item> float arithmetic (\<^verbatim>\<open>+\<close>, \<^verbatim>\<open>-\<close>, \<^verbatim>\<open>*\<close>, \<^verbatim>\<open>/\<close>) raises nothing and yields
    \<^verbatim>\<open>inf\<close>. Runs that continue with \<^verbatim>\<open>inf\<close> or \<^verbatim>\<open>nan\<close> are not followed: the model
    stops them with the outcome \<open>NonFinite\<close>, which is not a Python exception but the
    mark of a run the model says nothing about.
  Rounding to 53 bits is not modelled, with one exception: \<^verbatim>\<open>1.0 + q\<close> is \<open>1\<close> for
  \<open>0 \<le> q \<le> 2\<^sup>-\<^sup>5\<^sup>3\<close>, since this absorption decides whether the rate is zero. So a
  computed float stands for the real it approximates, and an \<^verbatim>\<open>int\<close> beyond \<open>2\<^sup>5\<^sup>3\<close>
  keeps its exact value where Python rounds it. The theorems below that promise a
  returned value therefore stay away from the edges: their hypotheses bound the inputs
  by \<open>2\<^sup>1\<^sup>0\<^sup>0\<^sup>0\<close> instead of the threshold, and ask for non-negative base values, for
  which the sign of a float sum is the sign of the exact sum. The horizon \<open>L\<close> and the
  elapsed value \<open>t\<close> of the selector are Python integers, hence \<open>int\<close>.

  Exceptions. Every exception the three functions can raise is a value of \<open>error\<close>, and
  a function that can raise returns \<open>error + 'a\<close>.

  Dictionaries. A \<^verbatim>\<open>dict\<close> keeps its insertion order, so it is an association list;
  a well-formed one has distinct keys.
\<close>

datatype error =
  ValueError | KeyError | ZeroDivisionError | TypeError | OverflowError | NonFinite

type_synonym dict = "(string \<times> real) list"

definition overflow_threshold :: real where
  "overflow_threshold = 2 ^ 1024 - 2 ^ 970"

definition to_float :: "real \<Rightarrow> error + real" where
  \<comment> \<open>an \<^verbatim>\<open>int\<close> converted to a float; a finite float is below the threshold and unchanged\<close>
  "to_float x = (if \<bar>x\<bar> < overflow_threshold then Inr x else Inl OverflowError)"

definition float_result :: "real \<Rightarrow> error + real" where
  \<comment> \<open>the result of float arithmetic: beyond the finite floats it is \<^verbatim>\<open>inf\<close>, not an exception\<close>
  "float_result x = (if \<bar>x\<bar> < overflow_threshold then Inr x else Inl NonFinite)"

definition truediv :: "real \<Rightarrow> real \<Rightarrow> error + real" where
  \<comment> \<open>\<^verbatim>\<open>x / y\<close> on floats: a zero divisor raises\<close>
  "truediv x y = (if y = 0 then Inl ZeroDivisionError else float_result (x / y))"

definition float_mul :: "real \<Rightarrow> real \<Rightarrow> error + real" where
  "float_mul x y = float_result (x * y)"

definition float_sub :: "real \<Rightarrow> real \<Rightarrow> error + real" where
  "float_sub x y = float_result (x - y)"

definition add_one :: "real \<Rightarrow> real" where
  \<comment> \<open>\<^verbatim>\<open>1.0 + q\<close>: a summand of at most half a unit in the last place is absorbed\<close>
  "add_one q = (if 0 \<le> q \<and> q \<le> 1 / 2 ^ 53 then 1 else 1 + q)"

definition math_log :: "real \<Rightarrow> error + real" where
  \<comment> \<open>\<^verbatim>\<open>math.log(x)\<close>: a math domain error outside the positive numbers\<close>
  "math_log x = (if x \<le> 0 then Inl ValueError else Inr (ln x))"

definition math_exp :: "real \<Rightarrow> error + real" where
  \<comment> \<open>\<^verbatim>\<open>math.exp(x)\<close>: a math range error when the result overflows\<close>
  "math_exp x = (if exp x < overflow_threshold then Inr (exp x) else Inl OverflowError)"

definition float_of_sum :: "real \<Rightarrow> error + real" where
  \<comment> \<open>\<^verbatim>\<open>float(S0)\<close>: a sum beyond the finite floats is \<^verbatim>\<open>inf\<close> when the values are floats
      and raises \<^verbatim>\<open>OverflowError\<close> when they are ints; the model does not tell them apart\<close>
  "float_of_sum S0 = float_result S0"

definition getitem :: "dict \<Rightarrow> string \<Rightarrow> error + real" where
  \<comment> \<open>\<^verbatim>\<open>d[k]\<close>\<close>
  "getitem d k = (case map_of d k of None \<Rightarrow> Inl KeyError | Some v \<Rightarrow> Inr v)"

definition dict_keys :: "dict \<Rightarrow> string list" where
  "dict_keys d = map fst d"

definition dict_values :: "dict \<Rightarrow> real list" where
  "dict_values d = map snd d"

section \<open>Exponential math\<close>

definition compute_common_r :: "real list \<Rightarrow> int \<Rightarrow> error + real" where
  "compute_common_r N0_values L =
     (if L \<le> 0 then Inr 0
      else
        let S0 = sum_list N0_values in
        if S0 \<le> 0 then Inr 0
        else
          (case to_float (real_of_int L) of
             Inl e \<Rightarrow> Inl e
           | Inr fL \<Rightarrow>
               (case float_of_sum S0 of
                  Inl e \<Rightarrow> Inl e
                | Inr fS \<Rightarrow>
                    (case truediv fL fS of
                       Inl e \<Rightarrow> Inl e
                     | Inr q \<Rightarrow>
                         (case math_log (add_one q) of
                            Inl e \<Rightarrow> Inl e
                          | Inr lg \<Rightarrow> truediv lg fL)))))"

definition target_value :: "real \<Rightarrow> real \<Rightarrow> real \<Rightarrow> error + real" where
  \<comment> \<open>\<^verbatim>\<open>v * math.exp(r * t)\<close>: the call of \<^verbatim>\<open>math.exp\<close> comes before the product with
      \<^verbatim>\<open>v\<close>; \<^verbatim>\<open>t\<close> and \<^verbatim>\<open>v\<close> may be ints and are converted\<close>
  "target_value v r t =
     (case to_float t of
        Inl e \<Rightarrow> Inl e
      | Inr ft \<Rightarrow>
          (case float_mul r ft of
             Inl e \<Rightarrow> Inl e
           | Inr rt \<Rightarrow>
               (case math_exp rt of
                  Inl e \<Rightarrow> Inl e
                | Inr ex \<Rightarrow>
                    (case to_float v of
                       Inl e \<Rightarrow> Inl e
                     | Inr fv \<Rightarrow> float_mul fv ex))))"

fun continuous_targets :: "dict \<Rightarrow> real \<Rightarrow> real \<Rightarrow> error + dict" where
  \<comment> \<open>\<^verbatim>\<open>{k: v * math.exp(r * t) for k, v in N0_map.items()}\<close>, item by item\<close>
  "continuous_targets [] r t = Inr []"
| "continuous_targets ((k, v) # items) r t =
     (case target_value v r t of
        Inl e \<Rightarrow> Inl e
      | Inr s \<Rightarrow>
          (case continuous_targets items r t of
             Inl e \<Rightarrow> Inl e
           | Inr S \<Rightarrow> Inr ((k, s) # S)))"

section \<open>The greedy selector\<close>

definition deficit_value :: "real \<Rightarrow> real \<Rightarrow> error + real" where
  \<comment> \<open>\<^verbatim>\<open>S[k] - current_map[k]\<close> on the two values: the current value may be an int\<close>
  "deficit_value s c =
     (case to_float c of
        Inl e \<Rightarrow> Inl e
      | Inr fc \<Rightarrow> float_sub s fc)"

fun deficits_comprehension :: "dict \<Rightarrow> dict \<Rightarrow> string list \<Rightarrow> error + dict" where
  \<comment> \<open>\<^verbatim>\<open>{k: S[k] - current_map[k] for k in N0_map}\<close>, the keys of \<^verbatim>\<open>N0_map\<close> in order\<close>
  "deficits_comprehension S current_map [] = Inr []"
| "deficits_comprehension S current_map (k # ks) =
     (case getitem S k of
        Inl e \<Rightarrow> Inl e
      | Inr s \<Rightarrow>
          (case getitem current_map k of
             Inl e \<Rightarrow> Inl e
           | Inr c \<Rightarrow>
               (case deficit_value s c of
                  Inl e \<Rightarrow> Inl e
                | Inr d \<Rightarrow>
                    (case deficits_comprehension S current_map ks of
                       Inl e \<Rightarrow> Inl e
                     | Inr ds \<Rightarrow> Inr ((k, d) # ds)))))"

type_synonym sort_key = "real \<times> real \<times> string"

definition key_fn :: "dict \<Rightarrow> string \<times> real \<Rightarrow> error + sort_key" where
  \<comment> \<open>\<^verbatim>\<open>lambda x: (x[1], N0_map[x[0]], x[0])\<close>\<close>
  "key_fn N0_map x =
     (case getitem N0_map (fst x) of
        Inl e \<Rightarrow> Inl e
      | Inr b \<Rightarrow> Inr (snd x, b, fst x))"

fun tuple_gt :: "sort_key \<Rightarrow> sort_key \<Rightarrow> bool" where
  \<comment> \<open>\<^verbatim>\<open>a > b\<close> on 3-tuples: the first component that differs decides\<close>
  "tuple_gt (d1, b1, n1) (d2, b2, n2) =
     (if d1 \<noteq> d2 then d1 > d2
      else if b1 \<noteq> b2 then b1 > b2
      else n1 > n2)"

fun max_loop ::
  "(string \<times> real \<Rightarrow> error + sort_key) \<Rightarrow> string \<times> real \<Rightarrow> sort_key \<Rightarrow>
     (string \<times> real) list \<Rightarrow> error + (string \<times> real)" where
  \<comment> \<open>the loop of \<^verbatim>\<open>max\<close>: a later item replaces the best one only when its key is greater\<close>
  "max_loop key maxitem maxval [] = Inr maxitem"
| "max_loop key maxitem maxval (item # items) =
     (case key item of
        Inl e \<Rightarrow> Inl e
      | Inr val \<Rightarrow>
          if tuple_gt val maxval then max_loop key item val items
          else max_loop key maxitem maxval items)"

definition py_max ::
  "(string \<times> real \<Rightarrow> error + sort_key) \<Rightarrow> (string \<times> real) list \<Rightarrow>
     error + (string \<times> real)" where
  \<comment> \<open>\<^verbatim>\<open>max(iterable, key=...)\<close>: an empty iterable raises \<^verbatim>\<open>ValueError\<close>\<close>
  "py_max key items =
     (case items of
        [] \<Rightarrow> Inl ValueError
      | item # rest \<Rightarrow>
          (case key item of
             Inl e \<Rightarrow> Inl e
           | Inr val \<Rightarrow> max_loop key item val rest))"

definition greedy_next_stat_to_increment ::
  "dict \<Rightarrow> dict \<Rightarrow> int \<Rightarrow> int \<Rightarrow> error + (string \<times> dict \<times> real)" where
  "greedy_next_stat_to_increment N0_map current_map L_horizon t_now =
     (case compute_common_r (dict_values N0_map) L_horizon of
        Inl e \<Rightarrow> Inl e
      | Inr r \<Rightarrow>
          (case continuous_targets N0_map r (real_of_int t_now) of
             Inl e \<Rightarrow> Inl e
           | Inr S \<Rightarrow>
               (case deficits_comprehension S current_map (dict_keys N0_map) of
                  Inl e \<Rightarrow> Inl e
                | Inr deficits \<Rightarrow>
                    (case py_max (key_fn N0_map) deficits of
                       Inl e \<Rightarrow> Inl e
                     | Inr choice \<Rightarrow> Inr (fst choice, deficits, r)))))"

section \<open>Dictionaries as objects\<close>

text \<open>
  Python passes a \<^verbatim>\<open>dict\<close> by reference, so a callee could change the caller's
  dictionary. To state what \<^verbatim>\<open>greedy_next_stat_to_increment\<close> does to its arguments,
  this section runs the same code on a store: the mutable containers (\<^verbatim>\<open>dict\<close>,
  \<^verbatim>\<open>list\<close>) are objects in a heap and are passed as addresses; floats, strings and
  tuples are immutable and stay values. An address is an index into the heap, and a
  new object gets the next index. A reference to an object of the wrong kind is
  outside the typed interface of the three functions; the model answers it with
  \<^verbatim>\<open>TypeError\<close>.
\<close>

type_synonym addr = nat

datatype pyobj = PyDict dict | PyList "real list"

type_synonym heap = "pyobj list"

definition alloc :: "pyobj \<Rightarrow> heap \<Rightarrow> addr \<times> heap" where
  "alloc obj h = (length h, h @ [obj])"

definition dict_at :: "heap \<Rightarrow> addr \<Rightarrow> error + dict" where
  "dict_at h a =
     (if a < length h then (case h ! a of PyDict d \<Rightarrow> Inr d | PyList vs \<Rightarrow> Inl TypeError)
      else Inl TypeError)"

definition list_at :: "heap \<Rightarrow> addr \<Rightarrow> error + real list" where
  "list_at h a =
     (if a < length h then (case h ! a of PyList vs \<Rightarrow> Inr vs | PyDict d \<Rightarrow> Inl TypeError)
      else Inl TypeError)"

definition compute_common_r_ref :: "heap \<Rightarrow> addr \<Rightarrow> int \<Rightarrow> error + real" where
  \<comment> \<open>\<^verbatim>\<open>compute_common_r\<close> on a list object: the list is read by \<^verbatim>\<open>sum\<close> only\<close>
  "compute_common_r_ref h N0_values L =
     (if L \<le> 0 then Inr 0
      else (case list_at h N0_values of
              Inl e \<Rightarrow> Inl e
            | Inr vs \<Rightarrow> compute_common_r vs L))"

definition continuous_targets_ref ::
  "heap \<Rightarrow> addr \<Rightarrow> real \<Rightarrow> real \<Rightarrow> (error + addr) \<times> heap" where
  \<comment> \<open>the comprehension builds a new dictionary; when an item raises, none is built\<close>
  "continuous_targets_ref h N0_map r t =
     (case dict_at h N0_map of
        Inl e \<Rightarrow> (Inl e, h)
      | Inr N0 \<Rightarrow>
          (case continuous_targets N0 r t of
             Inl e \<Rightarrow> (Inl e, h)
           | Inr targets \<Rightarrow> (let (S, h') = alloc (PyDict targets) h in (Inr S, h'))))"

definition deficits_ref :: "heap \<Rightarrow> addr \<Rightarrow> addr \<Rightarrow> addr \<Rightarrow> error + dict" where
  \<comment> \<open>the items of \<^verbatim>\<open>{k: S[k] - current_map[k] for k in N0_map}\<close>, read from the store\<close>
  "deficits_ref h S current_map N0_map =
     (case dict_at h N0_map of
        Inl e \<Rightarrow> Inl e
      | Inr N0 \<Rightarrow>
          (case dict_at h S of
             Inl e \<Rightarrow> Inl e
           | Inr targets \<Rightarrow>
               (case dict_at h current_map of
                  Inl e \<Rightarrow> Inl e
                | Inr cur \<Rightarrow> deficits_comprehension targets cur (dict_keys N0))))"

definition max_ref :: "heap \<Rightarrow> addr \<Rightarrow> addr \<Rightarrow> error + (string \<times> real)" where
  \<comment> \<open>\<^verbatim>\<open>max(deficits.items(), key=lambda x: (x[1], N0_map[x[0]], x[0]))\<close>\<close>
  "max_ref h deficits N0_map =
     (case dict_at h deficits of
        Inl e \<Rightarrow> Inl e
      | Inr ds \<Rightarrow>
          (case dict_at h N0_map of
             Inl e \<Rightarrow> Inl e
           | Inr N0 \<Rightarrow> py_max (key_fn N0) ds))"

definition greedy_next_stat_to_increment_ref ::
  "heap \<Rightarrow> addr \<Rightarrow> addr \<Rightarrow> int \<Rightarrow> int \<Rightarrow> (error + (string \<times> addr \<times> real)) \<times> heap" where
  "greedy_next_stat_to_increment_ref h N0_map current_map L_horizon t_now =
     (case dict_at h N0_map of
        Inl e \<Rightarrow> (Inl e, h)
      | Inr N0 \<Rightarrow>
          (let (vals, h1) = alloc (PyList (dict_values N0)) h in
           (case compute_common_r_ref h1 vals L_horizon of
              Inl e \<Rightarrow> (Inl e, h1)
            | Inr r \<Rightarrow>
                (case continuous_targets_ref h1 N0_map r (real_of_int t_now) of
                   (Inl e, h2) \<Rightarrow> (Inl e, h2)
                 | (Inr S, h2) \<Rightarrow>
                     (case deficits_ref h2 S current_map N0_map of
                        Inl e \<Rightarrow> (Inl e, h2)
                      | Inr ds \<Rightarrow>
                          (let (deficits, h3) = alloc (PyDict ds) h2 in
                           (case max_ref h3 deficits N0_map of
                              Inl e \<Rightarrow> (Inl e, h3)
                            | Inr choice \<Rightarrow> (Inr (fst choice, deficits, r), h3))))))))"

definition observe :: "heap \<Rightarrow> error + (string \<times> addr \<times> real) \<Rightarrow> error + (string \<times> dict \<times> real)" where
  \<comment> \<open>what the caller sees of a result: the chosen stat, the contents of the deficit map, the rate\<close>
  "observe h res =
     (case res of
        Inl e \<Rightarrow> Inl e
      | Inr (choice, deficits, r) \<Rightarrow>
          (case dict_at h deficits of
             Inl e \<Rightarrow> Inl e
           | Inr ds \<Rightarrow> Inr (choice, ds, r)))"

section \<open>The float range\<close>

lemma overflow_threshold_pos: "0 < overflow_threshold"
  by (simp add: overflow_threshold_def)

lemma below_threshold: "\<bar>x\<bar> \<le> 2 ^ 1000 \<Longrightarrow> \<bar>x\<bar> < overflow_threshold"
proof -
  assume "\<bar>x\<bar> \<le> 2 ^ 1000"
  moreover have "(2::real) ^ 1000 < overflow_threshold"
    by (simp add: overflow_threshold_def)
  ultimately show ?thesis by linarith
qed

lemma le_below_threshold: "x \<le> 2 ^ 1000 \<Longrightarrow> x < overflow_threshold"
  using below_threshold [of "2 ^ 1000"] by simp

lemma to_float_in_range: "\<bar>x\<bar> < overflow_threshold \<Longrightarrow> to_float x = Inr x"
  by (simp add: to_float_def)

lemma float_result_in_range: "\<bar>x\<bar> < overflow_threshold \<Longrightarrow> float_result x = Inr x"
  by (simp add: float_result_def)

lemma to_float_cases: "to_float x = Inr x \<or> to_float x = Inl OverflowError"
  by (simp add: to_float_def)

lemma float_result_cases: "float_result x = Inr x \<or> float_result x = Inl NonFinite"
  by (simp add: float_result_def)

lemma exp_cubic_lower:
  assumes "0 \<le> (x::real)"
  shows "1 + x + x\<^sup>2 / 2 + x ^ 3 / 6 \<le> exp x"
proof -
  obtain u where u: "exp x = (\<Sum>m<4. x ^ m / fact m) + exp u / fact 4 * x ^ 4"
    using Maclaurin_exp_le [of x 4] by blast
  have "0 \<le> exp u / fact 4 * x ^ 4"
    by simp
  moreover have "(\<Sum>m<4. x ^ m / fact m) = 1 + x + x\<^sup>2 / 2 + x ^ 3 / 6"
    by (simp add: lessThan_nat_numeral fact_numeral)
  ultimately show ?thesis
    using u by linarith
qed

lemma exp_quartic_upper:
  assumes "0 \<le> (x::real)" and "x \<le> 1"
  shows "exp x \<le> 1 + x + x\<^sup>2 / 2 + x ^ 3 / 6 + x ^ 4 / 8"
proof -
  obtain u where u: "\<bar>u\<bar> \<le> \<bar>x\<bar>"
    "exp x = (\<Sum>m<4. x ^ m / fact m) + exp u / fact 4 * x ^ 4"
    using Maclaurin_exp_le [of x 4] by blast
  have "u \<le> 1"
    using u(1) assms by linarith
  then have "exp u \<le> exp 1"
    by simp
  also have "\<dots> \<le> 3"
    by (rule exp_le)
  finally have "exp u * x ^ 4 \<le> 3 * x ^ 4"
    by (intro mult_right_mono) simp_all
  then have "exp u / fact 4 * x ^ 4 \<le> x ^ 4 / 8"
    by (simp add: fact_numeral)
  moreover have "(\<Sum>m<4. x ^ m / fact m) = 1 + x + x\<^sup>2 / 2 + x ^ 3 / 6"
    by (simp add: lessThan_nat_numeral fact_numeral)
  ultimately show ?thesis
    using u(2) by linarith
qed

lemma exp_overflows:
  assumes "800 \<le> (x::real)"
  shows "overflow_threshold \<le> exp x"
proof -
  have "(5 / 2 :: real) \<le> 1 + 1 + 1\<^sup>2 / 2 + 1 ^ 3 / 6"
    by simp
  also have "\<dots> \<le> exp 1"
    by (rule exp_cubic_lower) simp
  finally have e: "(5 / 2 :: real) \<le> exp 1" .
  have "overflow_threshold \<le> (5 / 2 :: real) ^ 800"
    by (simp add: overflow_threshold_def power_divide)
  also have "\<dots> \<le> exp 1 ^ 800"
    using e by (intro power_mono) simp_all
  also have "\<dots> = exp (800 :: real)"
    using exp_of_nat_mult [of 800 "1::real"] by simp
  also have "\<dots> \<le> exp x"
    using assms by simp
  finally show ?thesis .
qed

lemma exp_stays_small:
  assumes "(x::real) \<le> 512"
  shows "exp x \<le> 2 ^ 812"
proof -
  have "exp x \<le> exp (512 :: real)"
    using assms by simp
  also have "\<dots> = exp 1 ^ 512"
    using exp_of_nat_mult [of 512 "1::real"] by simp
  also have "\<dots> \<le> (3 :: real) ^ 512"
    by (intro power_mono exp_le) simp
  also have "\<dots> \<le> 2 ^ 812"
    by simp
  finally show ?thesis .
qed

lemma math_exp_overflows: "800 \<le> x \<Longrightarrow> math_exp x = Inl OverflowError"
  using exp_overflows [of x] by (simp add: math_exp_def)

lemma math_exp_in_range: "x \<le> 512 \<Longrightarrow> math_exp x = Inr (exp x)"
proof -
  assume "x \<le> 512"
  then have "exp x \<le> 2 ^ 812"
    by (rule exp_stays_small)
  moreover have "(2::real) ^ 812 < overflow_threshold"
    by (simp add: overflow_threshold_def)
  ultimately show ?thesis
    by (simp add: math_exp_def)
qed

lemma math_exp_cases: "math_exp x = Inr (exp x) \<or> math_exp x = Inl OverflowError"
  by (simp add: math_exp_def)

lemma ln_lower: "0 < (y::real) \<Longrightarrow> 1 - 1 / y \<le> ln y"
proof -
  assume y: "0 < y"
  then have "ln (1 / y) \<le> 1 / y - 1"
    by (intro ln_le_minus_one) simp
  then show ?thesis
    using y by (simp add: ln_div)
qed

section \<open>The rate calibrator\<close>

lemma compute_common_r_degenerate:
  "L \<le> 0 \<or> sum_list vs \<le> 0 \<Longrightarrow> compute_common_r vs L = Inr 0"
  by (auto simp: compute_common_r_def Let_def)

lemma compute_common_r_overflow:
  assumes "0 < L" and "0 < sum_list vs" and "overflow_threshold \<le> real_of_int L"
  shows "compute_common_r vs L = Inl OverflowError"
  using assms by (simp add: compute_common_r_def Let_def to_float_def)

lemma add_one_ge: "0 \<le> q \<Longrightarrow> 1 \<le> add_one q"
  by (simp add: add_one_def)

lemma add_one_le: "0 \<le> q \<Longrightarrow> add_one q \<le> 1 + q"
  by (simp add: add_one_def)

lemma add_one_regular: "1 / 2 ^ 53 < q \<Longrightarrow> add_one q = 1 + q"
  by (simp add: add_one_def)

lemma add_one_absorbed: "0 \<le> q \<Longrightarrow> q \<le> 1 / 2 ^ 53 \<Longrightarrow> add_one q = 1"
  by (simp add: add_one_def)

lemma small_below_threshold: "q \<le> 1 / 2 ^ 53 \<Longrightarrow> q < overflow_threshold"
proof -
  assume "q \<le> 1 / 2 ^ 53"
  moreover have "(1 / 2 ^ 53 :: real) < overflow_threshold"
    by (simp add: overflow_threshold_def)
  ultimately show ?thesis by linarith
qed

lemma compute_common_r_steps:
  assumes "0 < L" and "real_of_int L < overflow_threshold"
    and "0 < sum_list vs" and "sum_list vs < overflow_threshold"
    and "real_of_int L / sum_list vs < overflow_threshold"
  shows "compute_common_r vs L
           = Inr (ln (add_one (real_of_int L / sum_list vs)) / real_of_int L)"
proof -
  let ?q = "real_of_int L / sum_list vs"
  have q: "0 < ?q"
    using assms by simp
  have one: "1 \<le> add_one ?q"
    using q by (intro add_one_ge) simp
  have le: "add_one ?q \<le> 1 + ?q"
    using q by (intro add_one_le) simp
  have lg0: "0 \<le> ln (add_one ?q)"
    using one by simp
  have "ln (add_one ?q) \<le> ln (1 + ?q)"
    using one le by simp
  also have "\<dots> \<le> ?q"
    using q by (intro ln_add_one_self_le_self) simp
  finally have lgq: "ln (add_one ?q) \<le> ?q" .
  have L1: "1 \<le> real_of_int L"
    using assms(1) by simp
  have "ln (add_one ?q) / real_of_int L \<le> ln (add_one ?q) / 1"
    using lg0 L1 by (intro divide_left_mono) simp_all
  then have "ln (add_one ?q) / real_of_int L < overflow_threshold"
    using lgq assms(5) by simp
  moreover have "0 \<le> ln (add_one ?q) / real_of_int L"
    using lg0 L1 by simp
  ultimately have r: "\<bar>ln (add_one ?q) / real_of_int L\<bar> < overflow_threshold"
    by simp
  have a: "to_float (real_of_int L) = Inr (real_of_int L)"
    using assms(1,2) by (simp add: to_float_def)
  have b: "float_of_sum (sum_list vs) = Inr (sum_list vs)"
    using assms(3,4) by (simp add: float_of_sum_def float_result_def)
  have c: "truediv (real_of_int L) (sum_list vs) = Inr ?q"
    using assms(3,5) q by (simp add: truediv_def float_result_def)
  have d: "math_log (add_one ?q) = Inr (ln (add_one ?q))"
    using one by (simp add: math_log_def)
  have e: "truediv (ln (add_one ?q)) (real_of_int L) = Inr (ln (add_one ?q) / real_of_int L)"
    using assms(1) r by (simp add: truediv_def float_result_def)
  show ?thesis
    using assms(1,3) by (simp add: compute_common_r_def Let_def a b c d e)
qed

lemma compute_common_r_regular:
  assumes "0 < L" and "real_of_int L < overflow_threshold"
    and "0 < sum_list vs" and "sum_list vs < overflow_threshold"
    and "real_of_int L / sum_list vs < overflow_threshold"
    and "1 / 2 ^ 53 < real_of_int L / sum_list vs"
  shows "compute_common_r vs L = Inr (ln (1 + real_of_int L / sum_list vs) / real_of_int L)"
  using compute_common_r_steps [OF assms(1-5)] add_one_regular [OF assms(6)] by simp

lemma compute_common_r_absorbed:
  assumes "0 < L" and "real_of_int L < overflow_threshold"
    and "0 < sum_list vs" and "sum_list vs < overflow_threshold"
    and "real_of_int L / sum_list vs \<le> 1 / 2 ^ 53"
  shows "compute_common_r vs L = Inr 0"
proof -
  have "real_of_int L / sum_list vs < overflow_threshold"
    using assms(5) by (rule small_below_threshold)
  moreover have "0 \<le> real_of_int L / sum_list vs"
    using assms(1,3) by simp
  then have "add_one (real_of_int L / sum_list vs) = 1"
    using assms(5) by (rule add_one_absorbed)
  ultimately show ?thesis
    using compute_common_r_steps [OF assms(1-4)] by simp
qed

lemma compute_common_r_outcomes:
  "(\<exists>r. compute_common_r vs L = Inr r) \<or> compute_common_r vs L = Inl OverflowError
     \<or> compute_common_r vs L = Inl NonFinite"
proof (cases "L \<le> 0 \<or> sum_list vs \<le> 0")
  case True
  then show ?thesis by (simp add: compute_common_r_degenerate)
next
  case False
  then have L: "0 < L" and S: "0 < sum_list vs" by auto
  show ?thesis
  proof (cases "real_of_int L < overflow_threshold")
    case False
    then show ?thesis using L S by (simp add: compute_common_r_overflow)
  next
    case Lr: True
    show ?thesis
    proof (cases "sum_list vs < overflow_threshold \<and> real_of_int L / sum_list vs < overflow_threshold")
      case True
      then show ?thesis using compute_common_r_steps [OF L Lr S] by simp
    next
      case False
      have q: "0 < real_of_int L / sum_list vs"
        using L S by simp
      from False have "compute_common_r vs L = Inl NonFinite"
        using L S Lr q
        by (auto simp: compute_common_r_def Let_def to_float_def float_of_sum_def
            float_result_def truediv_def)
      then show ?thesis by simp
    qed
  qed
qed

lemma compute_common_r_ge_0:
  assumes "compute_common_r vs L = Inr r"
  shows "0 \<le> r"
proof (cases "L \<le> 0 \<or> sum_list vs \<le> 0")
  case True
  then show ?thesis using assms by (simp add: compute_common_r_degenerate)
next
  case False
  then have L: "0 < L" and S: "0 < sum_list vs" by auto
  let ?q = "real_of_int L / sum_list vs"
  have q: "0 < ?q" using L S by simp
  have ranges: "real_of_int L < overflow_threshold \<and> sum_list vs < overflow_threshold
      \<and> ?q < overflow_threshold"
    using assms L S q
    by (auto simp: compute_common_r_def Let_def to_float_def float_of_sum_def
        float_result_def truediv_def split: if_splits)
  then have "r = ln (add_one ?q) / real_of_int L"
    using compute_common_r_steps [OF L _ S] assms by simp
  moreover have "1 \<le> add_one ?q"
    using q by (intro add_one_ge) simp
  ultimately show ?thesis
    using L by simp
qed

lemma compute_common_r_le:
  assumes "compute_common_r vs L = Inr r" and "0 < sum_list vs"
  shows "r \<le> 1 / sum_list vs"
proof (cases "L \<le> 0")
  case True
  then show ?thesis using assms by (simp add: compute_common_r_degenerate)
next
  case False
  then have L: "0 < L" by simp
  note S = assms(2)
  let ?q = "real_of_int L / sum_list vs"
  have q: "0 < ?q" using L S by simp
  have ranges: "real_of_int L < overflow_threshold \<and> sum_list vs < overflow_threshold
      \<and> ?q < overflow_threshold"
    using assms L q
    by (auto simp: compute_common_r_def Let_def to_float_def float_of_sum_def
        float_result_def truediv_def split: if_splits)
  then have r: "r = ln (add_one ?q) / real_of_int L"
    using compute_common_r_steps [OF L _ S] assms by simp
  have one: "1 \<le> add_one ?q"
    using q by (intro add_one_ge) simp
  have le: "add_one ?q \<le> 1 + ?q"
    using q by (intro add_one_le) simp
  have "ln (add_one ?q) \<le> ln (1 + ?q)"
    using one le by simp
  also have "\<dots> \<le> ?q"
    using q by (intro ln_add_one_self_le_self) simp
  finally have "ln (add_one ?q) / real_of_int L \<le> ?q / real_of_int L"
    using L by (intro divide_right_mono) simp_all
  also have "\<dots> = 1 / sum_list vs"
    using L by simp
  finally show ?thesis
    by (simp add: r)
qed

text \<open>
  Claim C2 as stated fails: for \<open>L = 10\<^sup>4\<^sup>0\<^sup>0\<close> and the base values \<open>11, 13\<close>
  (\<open>L > 0\<close>, positive sum) \<^verbatim>\<open>float(L)\<close> raises \<^verbatim>\<open>OverflowError\<close>, so no rate is
  returned.
\<close>

theorem rate_overflow_counterexample:
  "(0::int) < 10 ^ 400 \<and> 0 < sum_list [11, 13 :: real]
   \<and> compute_common_r [11, 13] (10 ^ 400) = Inl OverflowError"
proof -
  have "overflow_threshold \<le> real_of_int (10 ^ 400)"
    by (simp add: overflow_threshold_def)
  then have "compute_common_r [11, 13] (10 ^ 400) = Inl OverflowError"
    by (intro compute_common_r_overflow) simp_all
  then show ?thesis by simp
qed

text \<open>
  Claim C2, amended. For an integer \<open>L > 0\<close> and non-negative base values with a
  positive sum \<open>S0\<close> such that \<open>L\<close>, \<open>S0\<close> and \<open>L / S0\<close> are at most \<open>2\<^sup>1\<^sup>0\<^sup>0\<^sup>0\<close>,
  \<^verbatim>\<open>compute_common_r\<close> returns a rate \<open>r\<close> with \<open>S0 * e\<^sup>r\<^sup>L\<close> within the relative
  tolerance \<open>10\<^sup>-\<^sup>9\<close> of \<open>S0 + L\<close>. When moreover \<open>L / S0 \<ge> 2\<^sup>-\<^sup>2\<^sup>0\<close>, the rate is
  \<open>r = ln (1 + L / S0) / L\<close>, and over the reals it is the only rate with
  \<open>S0 * e\<^sup>r\<^sup>L = S0 + L\<close>. (For a smaller \<open>L / S0\<close> the sum \<^verbatim>\<open>1.0 + L / S0\<close> loses
  digits of \<open>L / S0\<close>, down to \<open>1.0\<close> itself.)
\<close>

theorem compute_common_r_calibrated:
  assumes "0 < L" and "real_of_int L \<le> 2 ^ 1000"
    and "\<forall>v \<in> set vs. 0 \<le> v"
    and "0 < sum_list vs" and "sum_list vs \<le> 2 ^ 1000"
    and "real_of_int L / sum_list vs \<le> 2 ^ 1000"
  shows "\<exists>r. compute_common_r vs L = Inr r
           \<and> \<bar>sum_list vs * exp (r * real_of_int L) - (sum_list vs + real_of_int L)\<bar>
                 \<le> (sum_list vs + real_of_int L) / 10 ^ 9
           \<and> (1 / 2 ^ 20 \<le> real_of_int L / sum_list vs \<longrightarrow>
                r = ln (1 + real_of_int L / sum_list vs) / real_of_int L
                \<and> sum_list vs * exp (r * real_of_int L) = sum_list vs + real_of_int L
                \<and> (\<forall>r'. sum_list vs * exp (r' * real_of_int L) = sum_list vs + real_of_int L
                       \<longrightarrow> r' = r))"
proof -
  define S0 where "S0 = sum_list vs"
  have S0: "0 < S0" and L: "0 < real_of_int L"
    using assms by (simp_all add: S0_def)
  have Lr: "real_of_int L < overflow_threshold"
    using assms(2) by (rule le_below_threshold)
  have Sr: "sum_list vs < overflow_threshold"
    using assms(5) by (rule le_below_threshold)
  have qr: "real_of_int L / sum_list vs < overflow_threshold"
    using assms(6) by (rule le_below_threshold)
  have tol: "0 \<le> (S0 + real_of_int L) / 10 ^ 9"
    using S0 L by simp
  show ?thesis
  proof (cases "1 / 2 ^ 53 < real_of_int L / sum_list vs")
    case True
    define r where "r = ln (1 + real_of_int L / S0) / real_of_int L"
    have pos: "0 < 1 + real_of_int L / S0"
      using S0 L by (simp add: add_pos_pos)
    have target: "S0 * (1 + real_of_int L / S0) = S0 + real_of_int L"
      using S0 by (simp add: field_simps)
    have rL: "r * real_of_int L = ln (1 + real_of_int L / S0)"
      using L by (simp add: r_def)
    have reach: "S0 * exp (r * real_of_int L) = S0 + real_of_int L"
      using pos target by (simp add: rL)
    have uniq: "r' = r" if "S0 * exp (r' * real_of_int L) = S0 + real_of_int L" for r'
    proof -
      have "S0 * exp (r' * real_of_int L) = S0 * exp (r * real_of_int L)"
        using that reach by simp
      then have "exp (r' * real_of_int L) = exp (r * real_of_int L)"
        using S0 by simp
      then have "r' * real_of_int L = r * real_of_int L"
        by simp
      then show ?thesis
        using L by simp
    qed
    have ret: "compute_common_r vs L = Inr r"
      using compute_common_r_regular [OF assms(1) Lr assms(4) Sr qr True]
      by (simp add: r_def S0_def)
    have close: "\<bar>S0 * exp (r * real_of_int L) - (S0 + real_of_int L)\<bar>
        \<le> (S0 + real_of_int L) / 10 ^ 9"
      using tol by (simp add: reach)
    show ?thesis
      using ret close reach uniq unfolding r_def S0_def by blast
  next
    case False
    then have small: "real_of_int L / sum_list vs \<le> 1 / 2 ^ 53"
      by simp
    have "(1 / 2 ^ 53 :: real) < 1 / 2 ^ 20"
      by simp
    with small have not_big: "\<not> 1 / 2 ^ 20 \<le> real_of_int L / sum_list vs"
      by linarith
    have ret: "compute_common_r vs L = Inr 0"
      using assms(1) Lr assms(4) Sr small by (rule compute_common_r_absorbed)
    have "real_of_int L \<le> sum_list vs / 2 ^ 53"
      using small assms(4) by (simp add: field_simps)
    also have "\<dots> \<le> (sum_list vs + real_of_int L) / 2 ^ 53"
      using assms(1) by (simp add: divide_right_mono)
    also have "\<dots> \<le> (sum_list vs + real_of_int L) / 10 ^ 9"
      using assms(1,4) by (intro divide_left_mono) simp_all
    finally have "\<bar>sum_list vs * exp (0 * real_of_int L) - (sum_list vs + real_of_int L)\<bar>
        \<le> (sum_list vs + real_of_int L) / 10 ^ 9"
      using assms(1) by simp
    then show ?thesis
      using ret not_big by blast
  qed
qed

theorem compute_common_r_calibrated_witness:
  "(0::int) < 2 \<and> real_of_int 2 \<le> 2 ^ 1000
   \<and> (0::real) \<le> 11 \<and> (0::real) \<le> 13
   \<and> 0 < sum_list [11, 13 :: real] \<and> sum_list [11, 13 :: real] \<le> 2 ^ 1000
   \<and> real_of_int 2 / sum_list [11, 13] \<le> 2 ^ 1000
   \<and> 1 / 2 ^ 20 \<le> real_of_int 2 / sum_list [11, 13]
   \<and> compute_common_r [11, 13] 2 = Inr (ln (13 / 12) / 2)
   \<and> sum_list [11, 13] * exp (ln (13 / 12) / 2 * real_of_int 2) = sum_list [11, 13] + real_of_int 2"
proof -
  have a: "(0::int) < 2" by simp
  have b: "real_of_int 2 \<le> 2 ^ 1000"
    by simp
  have n: "\<forall>v \<in> set [11, 13 :: real]. 0 \<le> v" by simp
  have c: "0 < sum_list [11, 13 :: real]" by simp
  have d: "sum_list [11, 13 :: real] \<le> 2 ^ 1000"
    by simp
  have e: "real_of_int 2 / sum_list [11, 13] \<le> 2 ^ 1000"
    by simp
  have f: "1 / 2 ^ 20 \<le> real_of_int 2 / sum_list [11, 13]"
    by simp
  from compute_common_r_calibrated [OF a b n c d e] f
  obtain r where r: "compute_common_r [11, 13] 2 = Inr r"
    "r = ln (1 + real_of_int 2 / sum_list [11, 13]) / real_of_int 2"
    "sum_list [11, 13] * exp (r * real_of_int 2) = sum_list [11, 13] + real_of_int 2"
    by blast
  have "r = ln (13 / 12) / 2"
    using r(2) by simp
  moreover have "(0::real) \<le> 11 \<and> (0::real) \<le> 13" by simp
  ultimately show ?thesis
    using a b c d e f r(1,3) by blast
qed

text \<open>
  Claim C3 as stated fails: \<^verbatim>\<open>compute_common_r\<close> is not total, since
  \<^verbatim>\<open>compute_common_r([1], 10**400)\<close> raises \<^verbatim>\<open>OverflowError\<close> at \<^verbatim>\<open>float(L)\<close>.
\<close>

theorem rate_not_total_counterexample:
  "compute_common_r [1] (10 ^ 400) = Inl OverflowError"
proof -
  have "overflow_threshold \<le> real_of_int (10 ^ 400)"
    by (simp add: overflow_threshold_def)
  then show ?thesis
    by (intro compute_common_r_overflow) simp_all
qed

text \<open>
  Claim C3, amended. In the degenerate cases \<^verbatim>\<open>compute_common_r\<close> raises nothing and
  returns exactly \<open>0\<close>: for every input with \<open>L \<le> 0\<close>, and for every \<open>L\<close> when the
  sum of the base values is \<open>\<le> 0\<close>, which includes the empty sequence. Outside these
  cases it is not total: with \<open>L > 0\<close> and non-negative base values of positive sum it
  raises \<^verbatim>\<open>OverflowError\<close> when \<open>L\<close> is at or above the overflow threshold
  \<open>2\<^sup>1\<^sup>0\<^sup>2\<^sup>4 - 2\<^sup>9\<^sup>7\<^sup>0\<close>. On no input does it raise the domain error of \<^verbatim>\<open>math.log\<close>
  or \<^verbatim>\<open>ZeroDivisionError\<close>.
\<close>

theorem compute_common_r_guards:
  "(L \<le> 0 \<longrightarrow> compute_common_r vs L = Inr 0)
   \<and> (sum_list vs \<le> 0 \<longrightarrow> compute_common_r vs L = Inr 0)
   \<and> compute_common_r [] L = Inr 0
   \<and> (0 < L \<and> (\<forall>v \<in> set vs. 0 \<le> v) \<and> 0 < sum_list vs
        \<and> overflow_threshold \<le> real_of_int L \<longrightarrow>
        compute_common_r vs L = Inl OverflowError)
   \<and> compute_common_r vs L \<noteq> Inl ValueError
   \<and> compute_common_r vs L \<noteq> Inl ZeroDivisionError"
proof -
  have "compute_common_r vs L \<noteq> Inl ValueError \<and> compute_common_r vs L \<noteq> Inl ZeroDivisionError"
    using compute_common_r_outcomes [of vs L] by auto
  then show ?thesis
    by (simp add: compute_common_r_degenerate compute_common_r_overflow)
qed

theorem compute_common_r_guards_witness:
  "(0::int) \<le> 0 \<and> compute_common_r [3, 4] 0 = Inr 0
   \<and> sum_list [- 1, 1 :: real] \<le> 0 \<and> compute_common_r [- 1, 1] 5 = Inr 0
   \<and> compute_common_r [] 7 = Inr 0
   \<and> (0::int) < 2 ^ 1024 \<and> 0 < sum_list [3, 4 :: real] \<and> overflow_threshold \<le> real_of_int (2 ^ 1024)
   \<and> compute_common_r [3, 4] (2 ^ 1024) = Inl OverflowError"
proof -
  have big: "overflow_threshold \<le> real_of_int (2 ^ 1024)"
    by (simp add: overflow_threshold_def)
  have pos: "(0::int) < 2 ^ 1024 \<and> (\<forall>v \<in> set [3, 4 :: real]. 0 \<le> v) \<and> 0 < sum_list [3, 4 :: real]"
    by simp
  have "compute_common_r [3, 4] (2 ^ 1024) = Inl OverflowError"
    using compute_common_r_guards [of "2 ^ 1024" "[3, 4]"] big pos by blast
  moreover have "compute_common_r [3, 4] 0 = Inr 0"
    using compute_common_r_guards [of 0 "[3, 4]"] by simp
  moreover have "compute_common_r [- 1, 1] 5 = Inr 0"
    using compute_common_r_guards [of 5 "[- 1, 1]"] by simp
  moreover have "compute_common_r [] 7 = Inr 0"
    using compute_common_r_guards [of 7 "[]"] by simp
  ultimately show ?thesis
    using big pos by simp
qed

text \<open>
  Claim C7 as stated fails: for \<open>L = 1\<close> and the single base value \<open>10\<^sup>1\<^sup>6\<close>
  (\<open>L > 0\<close>, positive sum) the returned rate is exactly \<open>0\<close>, not strictly positive,
  because \<^verbatim>\<open>1.0 + 1e-16\<close> is \<open>1.0\<close>.
\<close>

theorem rate_zero_counterexample:
  "(0::int) < 1 \<and> 0 < sum_list [10 ^ 16 :: real] \<and> compute_common_r [10 ^ 16] 1 = Inr 0"
proof -
  have "compute_common_r [10 ^ 16] 1 = Inr 0"
    by (rule compute_common_r_absorbed) (simp_all add: overflow_threshold_def)
  then show ?thesis by simp
qed

text \<open>
  Claim C7, amended. Every rate that \<^verbatim>\<open>compute_common_r\<close> returns is \<open>\<ge> 0\<close>. It is
  \<open>0\<close> on the two guards. For \<open>L > 0\<close> and non-negative base values with a positive
  sum \<open>S0\<close>, with \<open>L\<close> and \<open>S0\<close> at most \<open>2\<^sup>1\<^sup>0\<^sup>0\<^sup>0\<close>, it is strictly positive when
  \<open>2\<^sup>-\<^sup>5\<^sup>2 \<le> L / S0 \<le> 2\<^sup>1\<^sup>0\<^sup>0\<^sup>0\<close>, and it is exactly \<open>0\<close> when \<open>L / S0 \<le> 2\<^sup>-\<^sup>5\<^sup>4\<close>.
\<close>

theorem compute_common_r_nonneg:
  "(compute_common_r vs L = Inr r \<longrightarrow> 0 \<le> r)
   \<and> (L \<le> 0 \<or> sum_list vs \<le> 0 \<longrightarrow> compute_common_r vs L = Inr 0)
   \<and> (0 < L \<and> real_of_int L \<le> 2 ^ 1000
        \<and> (\<forall>v \<in> set vs. 0 \<le> v)
        \<and> 0 < sum_list vs \<and> sum_list vs \<le> 2 ^ 1000
        \<and> real_of_int L / sum_list vs \<le> 2 ^ 1000
        \<and> 1 / 2 ^ 52 \<le> real_of_int L / sum_list vs \<longrightarrow>
          (\<exists>r'. compute_common_r vs L = Inr r' \<and> 0 < r'))
   \<and> (0 < L \<and> real_of_int L \<le> 2 ^ 1000
        \<and> (\<forall>v \<in> set vs. 0 \<le> v)
        \<and> 0 < sum_list vs \<and> sum_list vs \<le> 2 ^ 1000
        \<and> real_of_int L / sum_list vs \<le> 1 / 2 ^ 54 \<longrightarrow>
          compute_common_r vs L = Inr 0)"
proof -
  have pos: "\<exists>r'. compute_common_r vs L = Inr r' \<and> 0 < r'"
    if h: "0 < L" "real_of_int L \<le> 2 ^ 1000"
      "0 < sum_list vs" "sum_list vs \<le> 2 ^ 1000"
      "real_of_int L / sum_list vs \<le> 2 ^ 1000"
      "1 / 2 ^ 52 \<le> real_of_int L / sum_list vs"
  proof -
    have "(1 / 2 ^ 53 :: real) < 1 / 2 ^ 52" by simp
    then have big: "1 / 2 ^ 53 < real_of_int L / sum_list vs"
      using h(6) by linarith
    have "0 < real_of_int L / sum_list vs"
      using h(1,3) by simp
    then have "0 < ln (1 + real_of_int L / sum_list vs)"
      by simp
    then have "0 < ln (1 + real_of_int L / sum_list vs) / real_of_int L"
      using h(1) by simp
    then show ?thesis
      using compute_common_r_regular [OF h(1) le_below_threshold [OF h(2)] h(3)
          le_below_threshold [OF h(4)] le_below_threshold [OF h(5)] big]
      by simp
  qed
  have zero: "compute_common_r vs L = Inr 0"
    if h: "0 < L" "real_of_int L \<le> 2 ^ 1000"
      "0 < sum_list vs" "sum_list vs \<le> 2 ^ 1000"
      "real_of_int L / sum_list vs \<le> 1 / 2 ^ 54"
  proof -
    have "(1 / 2 ^ 54 :: real) \<le> 1 / 2 ^ 53" by simp
    then have "real_of_int L / sum_list vs \<le> 1 / 2 ^ 53"
      using h(5) by linarith
    then show ?thesis
      using h(1) le_below_threshold [OF h(2)] h(3) le_below_threshold [OF h(4)]
      by (intro compute_common_r_absorbed)
  qed
  show ?thesis
    using pos zero compute_common_r_ge_0 [of vs L r]
    by (auto simp: compute_common_r_degenerate)
qed

theorem compute_common_r_nonneg_witness:
  "(\<exists>r'. compute_common_r [11, 13] 2 = Inr r' \<and> 0 < r')
   \<and> compute_common_r [11, 13] 0 = Inr 0
   \<and> compute_common_r [10 ^ 17] 1 = Inr 0
   \<and> compute_common_r [11, 13] 2 = Inr (ln (13 / 12) / 2) \<and> (0::real) \<le> ln (13 / 12) / 2"
proof -
  have r: "compute_common_r [11, 13] 2 = Inr (ln (13 / 12) / 2)"
    using compute_common_r_regular [of 2 "[11, 13]"] by (simp add: overflow_threshold_def)
  have a: "\<exists>r'. compute_common_r [11, 13] 2 = Inr r' \<and> 0 < r'"
    using compute_common_r_nonneg [of "[11, 13]" 2 0] by simp
  have b: "compute_common_r [11, 13] 0 = Inr 0"
    using compute_common_r_nonneg [of "[11, 13]" 0 0] by simp
  have c: "compute_common_r [10 ^ 17] 1 = Inr 0"
    using compute_common_r_nonneg [of "[10 ^ 17]" 1 0] by simp
  have d: "(0::real) \<le> ln (13 / 12) / 2"
    using compute_common_r_nonneg [of "[11, 13]" 2 "ln (13 / 12) / 2"] r by blast
  show ?thesis
    using a b c d r by blast
qed

section \<open>The target projector\<close>

lemma target_value_Inr: "target_value v r t = Inr s \<Longrightarrow> s = v * exp (r * t)"
  by (auto simp: target_value_def to_float_def float_mul_def float_result_def math_exp_def
      split: sum.splits if_splits)

lemma target_value_in_range:
  assumes "\<bar>t\<bar> < overflow_threshold" and "\<bar>r * t\<bar> < overflow_threshold"
    and "exp (r * t) < overflow_threshold" and "\<bar>v\<bar> < overflow_threshold"
    and "\<bar>v * exp (r * t)\<bar> < overflow_threshold"
  shows "target_value v r t = Inr (v * exp (r * t))"
  using assms
  by (simp add: target_value_def to_float_def float_mul_def float_result_def math_exp_def)

lemma target_value_small:
  assumes "\<bar>v\<bar> \<le> 2 ^ 100" and "\<bar>t\<bar> \<le> 2 ^ 1000" and "\<bar>r * t\<bar> \<le> 2 ^ 1000" and "r * t \<le> 512"
  shows "target_value v r t = Inr (v * exp (r * t))"
proof (rule target_value_in_range)
  show "\<bar>t\<bar> < overflow_threshold"
    using assms(2) by (rule below_threshold)
  show "\<bar>r * t\<bar> < overflow_threshold"
    using assms(3) by (rule below_threshold)
  have e: "exp (r * t) \<le> 2 ^ 812"
    using assms(4) by (rule exp_stays_small)
  have "(2::real) ^ 812 \<le> 2 ^ 1000" by simp
  with e have "\<bar>exp (r * t)\<bar> \<le> 2 ^ 1000" by simp
  then have "\<bar>exp (r * t)\<bar> < overflow_threshold"
    by (rule below_threshold)
  then show "exp (r * t) < overflow_threshold" by simp
  show "\<bar>v\<bar> < overflow_threshold"
  proof (rule below_threshold)
    have "(2::real) ^ 100 \<le> 2 ^ 1000" by simp
    with assms(1) show "\<bar>v\<bar> \<le> 2 ^ 1000" by linarith
  qed
  have "\<bar>v * exp (r * t)\<bar> = \<bar>v\<bar> * exp (r * t)"
    by (simp add: abs_mult)
  also have "\<dots> \<le> 2 ^ 100 * 2 ^ 812"
    using assms(1) e by (intro mult_mono) simp_all
  also have "\<dots> \<le> (2::real) ^ 1000"
    by simp
  finally show "\<bar>v * exp (r * t)\<bar> < overflow_threshold"
    by (rule below_threshold)
qed

lemma target_value_small_bound:
  assumes "\<bar>v :: real\<bar> \<le> 2 ^ 100" and "r * t \<le> (512 :: real)"
  shows "\<bar>v * exp (r * t)\<bar> \<le> 2 ^ 912"
proof -
  have e: "exp (r * t) \<le> 2 ^ 812"
    using assms(2) by (rule exp_stays_small)
  have "\<bar>v * exp (r * t)\<bar> = \<bar>v\<bar> * exp (r * t)"
    by (simp add: abs_mult)
  also have "\<dots> \<le> 2 ^ 100 * 2 ^ 812"
    using assms(1) e by (intro mult_mono) simp_all
  also have "\<dots> = (2::real) ^ 912"
    by (simp add: power_add [symmetric])
  finally show ?thesis .
qed

lemma target_value_overflows:
  assumes "\<bar>t\<bar> < overflow_threshold" and "\<bar>r * t\<bar> < overflow_threshold" and "800 \<le> r * t"
  shows "target_value v r t = Inl OverflowError"
  using assms math_exp_overflows [of "r * t"]
  by (simp add: target_value_def to_float_def float_mul_def float_result_def)

lemma one_below_threshold: "1 < overflow_threshold"
  using below_threshold [of 1] by simp

lemma target_value_at_zero:
  assumes "\<bar>v\<bar> < overflow_threshold"
  shows "target_value v r 0 = Inr v"
  using assms overflow_threshold_pos one_below_threshold
  by (simp add: target_value_def to_float_def float_mul_def float_result_def math_exp_def)

lemma target_value_rate_zero:
  assumes "\<bar>v\<bar> < overflow_threshold" and "\<bar>t\<bar> < overflow_threshold"
  shows "target_value v 0 t = Inr v"
  using assms overflow_threshold_pos one_below_threshold
  by (simp add: target_value_def to_float_def float_mul_def float_result_def math_exp_def)

lemma exact_below_threshold: "\<bar>v\<bar> \<le> 2 ^ 53 \<Longrightarrow> \<bar>v\<bar> < overflow_threshold"
proof -
  assume "\<bar>v\<bar> \<le> 2 ^ 53"
  moreover have "(2::real) ^ 53 \<le> 2 ^ 1000" by simp
  ultimately have "\<bar>v\<bar> \<le> 2 ^ 1000" by linarith
  then show ?thesis by (rule below_threshold)
qed

lemma continuous_targets_keys:
  "continuous_targets base r t = Inr T \<Longrightarrow> dict_keys T = dict_keys base"
  by (induction base r t arbitrary: T rule: continuous_targets.induct)
     (auto simp: dict_keys_def split: sum.splits)

lemma continuous_targets_getitem:
  "continuous_targets base r t = Inr T \<Longrightarrow> getitem base k = Inr v \<Longrightarrow>
     getitem T k = Inr (v * exp (r * t))"
  by (induction base r t arbitrary: T rule: continuous_targets.induct)
     (auto simp: getitem_def dest: target_value_Inr split: sum.splits if_splits)

lemma continuous_targets_returns:
  "\<forall>v \<in> set (dict_values base). \<exists>s. target_value v r t = Inr s \<Longrightarrow>
     \<exists>T. continuous_targets base r t = Inr T"
  by (induction base r t rule: continuous_targets.induct) (auto simp: dict_values_def)

lemma continuous_targets_identity:
  "\<forall>v \<in> set (dict_values base). target_value v r t = Inr v \<Longrightarrow>
     continuous_targets base r t = Inr base"
  by (induction base r t rule: continuous_targets.induct) (auto simp: dict_values_def)

lemma getitem_present:
  "k \<in> set (dict_keys d) \<Longrightarrow> \<exists>v. getitem d k = Inr v"
  by (induction d) (auto simp: getitem_def dict_keys_def)

lemma getitem_member: "getitem d k = Inr v \<Longrightarrow> (k, v) \<in> set d"
  by (auto simp: getitem_def split: option.splits dest: map_of_SomeD)

text \<open>
  Claim C5 as stated fails: \<^verbatim>\<open>continuous_targets\<close> does not return a map for every
  input, since \<^verbatim>\<open>continuous_targets({"X": 5}, 1.0, 1000)\<close> raises \<^verbatim>\<open>OverflowError\<close>
  in \<^verbatim>\<open>math.exp\<close>.
\<close>

theorem targets_overflow_counterexample:
  "continuous_targets [(''X'', 5)] 1 1000 = Inl OverflowError"
proof -
  have a: "\<bar>1000 :: real\<bar> < overflow_threshold"
    by (rule below_threshold) simp
  have b: "\<bar>1 * 1000 :: real\<bar> < overflow_threshold"
    by (rule below_threshold) simp
  have "target_value 5 1 1000 = Inl OverflowError"
    using a b by (rule target_value_overflows) simp
  then show ?thesis by simp
qed

text \<open>
  Claim C5, amended. Whenever \<^verbatim>\<open>continuous_targets\<close> returns a map, its keys are
  exactly the keys of the base map (in the same order). For a base map whose values are
  at most \<open>2\<^sup>5\<^sup>3\<close> in magnitude (so that an \<^verbatim>\<open>int\<close> value is not rounded by the
  product) it returns the base map itself at \<open>t = 0\<close> for every \<open>r\<close>, and at \<open>r = 0\<close>
  for every \<open>t\<close> below the overflow threshold \<open>2\<^sup>1\<^sup>0\<^sup>2\<^sup>4 - 2\<^sup>9\<^sup>7\<^sup>0\<close> in magnitude.
\<close>

theorem continuous_targets_keys_identity:
  "(continuous_targets base r t = Inr T \<longrightarrow>
       dict_keys T = dict_keys base \<and> set (dict_keys T) = set (dict_keys base))
   \<and> ((\<forall>v \<in> set (dict_values base). \<bar>v\<bar> \<le> 2 ^ 53) \<longrightarrow>
        continuous_targets base r 0 = Inr base)
   \<and> ((\<forall>v \<in> set (dict_values base). \<bar>v\<bar> \<le> 2 ^ 53) \<and> \<bar>t\<bar> < overflow_threshold \<longrightarrow>
        continuous_targets base 0 t = Inr base)"
proof (intro conjI impI)
  assume "continuous_targets base r t = Inr T"
  then have keys: "dict_keys T = dict_keys base"
    by (rule continuous_targets_keys)
  then show "dict_keys T = dict_keys base" .
  from keys show "set (dict_keys T) = set (dict_keys base)" by simp
next
  assume "\<forall>v \<in> set (dict_values base). \<bar>v\<bar> \<le> 2 ^ 53"
  then have "\<forall>v \<in> set (dict_values base). target_value v r 0 = Inr v"
    by (simp add: target_value_at_zero exact_below_threshold)
  then show "continuous_targets base r 0 = Inr base"
    by (rule continuous_targets_identity)
next
  assume "(\<forall>v \<in> set (dict_values base). \<bar>v\<bar> \<le> 2 ^ 53) \<and> \<bar>t\<bar> < overflow_threshold"
  then have "\<forall>v \<in> set (dict_values base). target_value v 0 t = Inr v"
    by (simp add: target_value_rate_zero exact_below_threshold)
  then show "continuous_targets base 0 t = Inr base"
    by (rule continuous_targets_identity)
qed

theorem continuous_targets_keys_identity_witness:
  "continuous_targets [(''X'', 5)] (ln (6 / 5)) 1 = Inr [(''X'', 6)]
   \<and> dict_keys [(''X'', 6)] = dict_keys [(''X'', 5)]
   \<and> \<bar>11 :: real\<bar> \<le> 2 ^ 53 \<and> \<bar>13 :: real\<bar> \<le> 2 ^ 53
   \<and> \<bar>7 :: real\<bar> < overflow_threshold
   \<and> continuous_targets [(''Vitality'', 11), (''Strength'', 13)] (1 / 2) 0
        = Inr [(''Vitality'', 11), (''Strength'', 13)]
   \<and> continuous_targets [(''Vitality'', 11), (''Strength'', 13)] 0 7
        = Inr [(''Vitality'', 11), (''Strength'', 13)]"
proof -
  let ?base = "[(''Vitality'', 11 :: real), (''Strength'', 13)]"
  have v: "\<bar>11 :: real\<bar> \<le> 2 ^ 53" "\<bar>13 :: real\<bar> \<le> 2 ^ 53"
    by simp_all
  have t7: "\<bar>7 :: real\<bar> < overflow_threshold"
    by (rule below_threshold) simp
  have all: "\<forall>v \<in> set (dict_values ?base). \<bar>v\<bar> \<le> 2 ^ 53"
    by (simp add: dict_values_def)
  have "target_value 5 (ln (6 / 5)) 1 = Inr (5 * exp (ln (6 / 5) * 1))"
  proof (rule target_value_small)
    have "ln (6 / 5 :: real) \<le> 6 / 5 - 1"
      by (rule ln_le_minus_one) simp
    moreover have "0 \<le> ln (6 / 5 :: real)"
      by simp
    ultimately show "\<bar>ln (6 / 5) * 1 :: real\<bar> \<le> 2 ^ 1000" "ln (6 / 5) * 1 \<le> (512 :: real)"
      by simp_all
  qed simp_all
  then have x: "continuous_targets [(''X'', 5)] (ln (6 / 5)) 1 = Inr [(''X'', 6)]"
    by simp
  have k: "dict_keys [(''X'', 6)] = dict_keys [(''X'', 5)]"
    using continuous_targets_keys_identity [of "[(''X'', 5)]" "ln (6 / 5)" 1 "[(''X'', 6)]"] x
    by blast
  have z: "continuous_targets ?base (1 / 2) 0 = Inr ?base"
    using continuous_targets_keys_identity [of ?base "1 / 2" 0 "[]"] all by blast
  have r: "continuous_targets ?base 0 7 = Inr ?base"
    using continuous_targets_keys_identity [of ?base 0 7 "[]"] all t7 by blast
  show ?thesis
    using x k v t7 z r by blast
qed




section \<open>Properties of the selector's parts\<close>

text \<open>
  The tuple comparison is a strict linear order, so the loop of \<^verbatim>\<open>max\<close> returns an
  item whose key no other key exceeds; the comprehensions keep the keys of the base map.
\<close>

lemma tuple_gt_irrefl: "\<not> tuple_gt a a"
  by (cases a) simp

lemma tuple_gt_trans: "tuple_gt a b \<Longrightarrow> tuple_gt b c \<Longrightarrow> tuple_gt a c"
  by (cases a; cases b; cases c) (auto split: if_splits)

lemma tuple_gt_total: "a \<noteq> b \<Longrightarrow> \<not> tuple_gt a b \<Longrightarrow> tuple_gt b a"
  by (cases a; cases b) (auto split: if_splits)

lemma tuple_not_gt_trans:
  assumes "\<not> tuple_gt a b" and "\<not> tuple_gt b c"
  shows "\<not> tuple_gt a c"
proof
  assume ac: "tuple_gt a c"
  show False
  proof (cases "a = b")
    case True
    then show ?thesis using ac assms by simp
  next
    case False
    then have "tuple_gt b a" using assms(1) by (rule tuple_gt_total)
    then have "tuple_gt b c" using ac by (rule tuple_gt_trans)
    then show ?thesis using assms(2) by simp
  qed
qed

lemma max_loop_returns:
  "\<forall>x \<in> set items. \<exists>k. key x = Inr k \<Longrightarrow> \<exists>m. max_loop key best bk items = Inr m"
  by (induction items arbitrary: best bk) auto

lemma max_loop_maximal:
  assumes "key best = Inr bk" and "max_loop key best bk items = Inr m"
  shows "\<exists>km. key m = Inr km \<and> m \<in> set (best # items) \<and>
           (\<forall>y \<in> set (best # items). \<forall>ky. key y = Inr ky \<longrightarrow> \<not> tuple_gt ky km)"
  using assms
proof (induction items arbitrary: best bk)
  case Nil
  then show ?case by (auto simp: tuple_gt_irrefl)
next
  case (Cons item items)
  from Cons.prems(2) obtain val where val: "key item = Inr val"
    by (auto split: sum.splits)
  show ?case
  proof (cases "tuple_gt val bk")
    case True
    with Cons.prems(2) val have "max_loop key item val items = Inr m" by simp
    from Cons.IH [OF val this] obtain km where km: "key m = Inr km"
      "m \<in> set (item # items)"
      "\<forall>y \<in> set (item # items). \<forall>ky. key y = Inr ky \<longrightarrow> \<not> tuple_gt ky km"
      by blast
    have "item \<in> set (item # items)" by simp
    with km(3) val have "\<not> tuple_gt val km" by blast
    then have "\<not> tuple_gt bk km"
      using True tuple_gt_trans by blast
    then show ?thesis
      using km Cons.prems(1) by auto
  next
    case False
    with Cons.prems(2) val have "max_loop key best bk items = Inr m" by simp
    from Cons.IH [OF Cons.prems(1) this] obtain km where km: "key m = Inr km"
      "m \<in> set (best # items)"
      "\<forall>y \<in> set (best # items). \<forall>ky. key y = Inr ky \<longrightarrow> \<not> tuple_gt ky km"
      by blast
    have "best \<in> set (best # items)" by simp
    with km(3) Cons.prems(1) have "\<not> tuple_gt bk km" by blast
    with False have "\<not> tuple_gt val km" by (rule tuple_not_gt_trans)
    then show ?thesis
      using km val by auto
  qed
qed

lemma py_max_returns:
  assumes "items \<noteq> []" and all: "\<forall>x \<in> set items. \<exists>k. key x = Inr k"
  shows "\<exists>m. py_max key items = Inr m"
proof (cases items)
  case Nil
  then show ?thesis using assms(1) by simp
next
  case (Cons item rest)
  then obtain val where val: "key item = Inr val"
    using all by auto
  from all Cons have "\<forall>x \<in> set rest. \<exists>k. key x = Inr k" by simp
  then obtain m where "max_loop key item val rest = Inr m"
    using max_loop_returns by blast
  then show ?thesis
    using Cons val by (simp add: py_max_def)
qed

lemma py_max_maximal:
  assumes "py_max key items = Inr m"
  shows "\<exists>km. key m = Inr km \<and> m \<in> set items \<and>
           (\<forall>y \<in> set items. \<forall>ky. key y = Inr ky \<longrightarrow> \<not> tuple_gt ky km)"
proof (cases items)
  case Nil
  then show ?thesis using assms by (simp add: py_max_def)
next
  case (Cons item rest)
  with assms obtain val where val: "key item = Inr val" "max_loop key item val rest = Inr m"
    by (auto simp: py_max_def split: sum.splits)
  from max_loop_maximal [OF val] show ?thesis
    by (simp only: Cons)
qed


lemma deficit_value_outcomes:
  "deficit_value s c = Inr (s - c) \<or> deficit_value s c = Inl OverflowError
     \<or> deficit_value s c = Inl NonFinite"
  by (simp add: deficit_value_def to_float_def float_sub_def float_result_def)

lemma deficit_value_small:
  assumes "\<bar>s\<bar> \<le> 2 ^ 912" and "\<bar>c\<bar> \<le> 2 ^ 100"
  shows "deficit_value s c = Inr (s - c)"
proof -
  have "(2::real) ^ 100 \<le> 2 ^ 1000" by simp
  with assms(2) have "\<bar>c\<bar> \<le> 2 ^ 1000" by linarith
  then have c: "\<bar>c\<bar> < overflow_threshold"
    by (rule below_threshold)
  have "(2::real) ^ 912 + 2 ^ 100 \<le> 2 ^ 1000" by simp
  with assms have "\<bar>s - c\<bar> \<le> 2 ^ 1000" by linarith
  then have "\<bar>s - c\<bar> < overflow_threshold"
    by (rule below_threshold)
  then show ?thesis
    using c by (simp add: deficit_value_def to_float_def float_sub_def float_result_def)
qed

lemma deficits_comprehension_keys:
  "deficits_comprehension S cur ks = Inr ds \<Longrightarrow> dict_keys ds = ks"
  by (induction ks arbitrary: ds) (auto simp: dict_keys_def split: sum.splits)

lemma deficits_comprehension_returns:
  "\<forall>k \<in> set ks. \<exists>s c d. getitem S k = Inr s \<and> getitem cur k = Inr c \<and> deficit_value s c = Inr d
     \<Longrightarrow> \<exists>ds. deficits_comprehension S cur ks = Inr ds"
proof (induction ks)
  case Nil
  then show ?case by simp
next
  case (Cons k ks)
  then obtain s c d ds where "getitem S k = Inr s" "getitem cur k = Inr c"
    "deficit_value s c = Inr d" "deficits_comprehension S cur ks = Inr ds"
    by auto
  then show ?case by simp
qed

lemma deficits_comprehension_outcomes:
  assumes "set ks \<subseteq> set (dict_keys S)" and "set ks \<subseteq> set (dict_keys cur)"
  shows "(\<exists>ds. deficits_comprehension S cur ks = Inr ds)
     \<or> deficits_comprehension S cur ks = Inl OverflowError
     \<or> deficits_comprehension S cur ks = Inl NonFinite"
  using assms
proof (induction ks)
  case Nil
  then show ?case by simp
next
  case (Cons k ks)
  then obtain s c where sc: "getitem S k = Inr s" "getitem cur k = Inr c"
    using getitem_present [of k S] getitem_present [of k cur] by auto
  from Cons have IH: "(\<exists>ds. deficits_comprehension S cur ks = Inr ds)
     \<or> deficits_comprehension S cur ks = Inl OverflowError
     \<or> deficits_comprehension S cur ks = Inl NonFinite"
    by simp
  show ?case
    using deficit_value_outcomes [of s c] IH by (auto simp: sc)
qed

lemma deficits_comprehension_cong:
  "\<forall>k \<in> set ks. getitem cur k = getitem cur' k \<Longrightarrow>
     deficits_comprehension S cur ks = deficits_comprehension S cur' ks"
  by (induction ks) (auto split: sum.splits)

lemma target_value_outcomes:
  "target_value v r t = Inr (v * exp (r * t)) \<or> target_value v r t = Inl OverflowError
     \<or> target_value v r t = Inl NonFinite"
  by (simp add: target_value_def to_float_def float_mul_def float_result_def math_exp_def)

lemma continuous_targets_outcomes:
  "(\<exists>T. continuous_targets base r t = Inr T) \<or> continuous_targets base r t = Inl OverflowError
     \<or> continuous_targets base r t = Inl NonFinite"
proof (induction base r t rule: continuous_targets.induct)
  case (1 r t)
  then show ?case by simp
next
  case (2 k v items r t)
  show ?case
    using target_value_outcomes [of v r t] 2 by auto
qed

lemma greedy_unfold:
  assumes "greedy_next_stat_to_increment base cur L t = Inr (c, ds, r)"
  shows "compute_common_r (dict_values base) L = Inr r"
    and "\<exists>S. continuous_targets base r (real_of_int t) = Inr S
            \<and> deficits_comprehension S cur (dict_keys base) = Inr ds"
    and "\<exists>d. py_max (key_fn base) ds = Inr (c, d)"
  using assms
  by (auto simp: greedy_next_stat_to_increment_def split: sum.splits)

lemma greedy_keys:
  assumes "greedy_next_stat_to_increment base cur L t = Inr (c, ds, r)"
  shows "dict_keys ds = dict_keys base"
  using greedy_unfold(2) [OF assms] deficits_comprehension_keys by blast

lemma key_fn_returns:
  assumes "dict_keys ds = dict_keys base" and "x \<in> set ds"
  shows "\<exists>k. key_fn base x = Inr k"
proof -
  have "fst x \<in> set (dict_keys ds)"
    using assms(2) by (simp add: dict_keys_def)
  then have "fst x \<in> set (dict_keys base)"
    using assms(1) by simp
  then show ?thesis
    using getitem_present [of "fst x" base] by (auto simp: key_fn_def)
qed

lemma greedy_after_deficits:
  assumes "base \<noteq> []" and "compute_common_r (dict_values base) L = Inr r"
    and "continuous_targets base r (real_of_int t) = Inr S"
    and "deficits_comprehension S cur (dict_keys base) = Inr ds"
  shows "\<exists>c. greedy_next_stat_to_increment base cur L t = Inr (c, ds, r)"
proof -
  have keys: "dict_keys ds = dict_keys base"
    using assms(4) by (rule deficits_comprehension_keys)
  then have ne: "ds \<noteq> []"
    using assms(1) by (auto simp: dict_keys_def)
  have "\<forall>x \<in> set ds. \<exists>k. key_fn base x = Inr k"
    using key_fn_returns [OF keys] by blast
  then obtain m where "py_max (key_fn base) ds = Inr m"
    using py_max_returns [OF ne, of "key_fn base"] by blast
  then show ?thesis
    using assms(2-4) by (simp add: greedy_next_stat_to_increment_def)
qed

lemma greedy_outcomes:
  assumes "base \<noteq> []" and "set (dict_keys base) \<subseteq> set (dict_keys cur)"
  shows "(\<exists>c ds r. greedy_next_stat_to_increment base cur L t = Inr (c, ds, r))
     \<or> greedy_next_stat_to_increment base cur L t = Inl OverflowError
     \<or> greedy_next_stat_to_increment base cur L t = Inl NonFinite"
proof -
  consider r where "compute_common_r (dict_values base) L = Inr r"
    | "compute_common_r (dict_values base) L = Inl OverflowError"
    | "compute_common_r (dict_values base) L = Inl NonFinite"
    using compute_common_r_outcomes [of "dict_values base" L] by blast
  then show ?thesis
  proof cases
    case (1 r)
    consider S where "continuous_targets base r (real_of_int t) = Inr S"
      | "continuous_targets base r (real_of_int t) = Inl OverflowError"
      | "continuous_targets base r (real_of_int t) = Inl NonFinite"
      using continuous_targets_outcomes [of base r "real_of_int t"] by blast
    then show ?thesis
    proof cases
      case S: (1 S)
      have "dict_keys S = dict_keys base"
        using S by (rule continuous_targets_keys)
      then have sub: "set (dict_keys base) \<subseteq> set (dict_keys S)"
        by simp
      consider ds where "deficits_comprehension S cur (dict_keys base) = Inr ds"
        | "deficits_comprehension S cur (dict_keys base) = Inl OverflowError"
        | "deficits_comprehension S cur (dict_keys base) = Inl NonFinite"
        using deficits_comprehension_outcomes [OF sub assms(2)] by blast
      then show ?thesis
      proof cases
        case (1 ds)
        then show ?thesis
          using greedy_after_deficits [OF assms(1) \<open>compute_common_r (dict_values base) L = Inr r\<close> S]
          by blast
      next
        case 2
        then show ?thesis
          using \<open>compute_common_r (dict_values base) L = Inr r\<close> S
          by (simp add: greedy_next_stat_to_increment_def)
      next
        case 3
        then show ?thesis
          using \<open>compute_common_r (dict_values base) L = Inr r\<close> S
          by (simp add: greedy_next_stat_to_increment_def)
      qed
    next
      case 2
      then show ?thesis
        using 1 by (simp add: greedy_next_stat_to_increment_def)
    next
      case 3
      then show ?thesis
        using 1 by (simp add: greedy_next_stat_to_increment_def)
    qed
  next
    case 2
    then show ?thesis by (simp add: greedy_next_stat_to_increment_def)
  next
    case 3
    then show ?thesis by (simp add: greedy_next_stat_to_increment_def)
  qed
qed

lemma greedy_empty: "greedy_next_stat_to_increment [] cur L t = Inl ValueError"
  by (simp add: greedy_next_stat_to_increment_def dict_values_def dict_keys_def
      compute_common_r_def py_max_def)

lemma greedy_maximal:
  assumes "greedy_next_stat_to_increment base cur L t = Inr (c, ds, r)"
  shows "\<exists>d b. (c, d) \<in> set ds \<and> getitem base c = Inr b \<and>
           (\<forall>(k, d') \<in> set ds. \<forall>b'. getitem base k = Inr b' \<longrightarrow> \<not> tuple_gt (d', b', k) (d, b, c))"
proof -
  from greedy_unfold(3) [OF assms] obtain d where "py_max (key_fn base) ds = Inr (c, d)"
    by blast
  from py_max_maximal [OF this] obtain km where km: "key_fn base (c, d) = Inr km"
    "(c, d) \<in> set ds"
    "\<forall>y \<in> set ds. \<forall>ky. key_fn base y = Inr ky \<longrightarrow> \<not> tuple_gt ky km"
    by blast
  from km(1) obtain b where b: "getitem base c = Inr b" "km = (d, b, c)"
    by (auto simp: key_fn_def split: sum.splits)
  have "\<not> tuple_gt (d', b', k) (d, b, c)" if "(k, d') \<in> set ds" "getitem base k = Inr b'" for k d' b'
  proof -
    have "key_fn base (k, d') = Inr (d', b', k)"
      using that(2) by (simp add: key_fn_def)
    then show ?thesis
      using km(3) that(1) b(2) by blast
  qed
  then show ?thesis
    using km(2) b(1) by blast
qed

lemma greedy_choice_is_key:
  assumes "greedy_next_stat_to_increment base cur L t = Inr (c, ds, r)"
  shows "c \<in> set (dict_keys base)"
proof -
  obtain b where "getitem base c = Inr b"
    using greedy_maximal [OF assms] by blast
  then have "(c, b) \<in> set base"
    by (rule getitem_member)
  then show ?thesis
    by (force simp: dict_keys_def)
qed


lemma member_le_sum_list_real:
  fixes xs :: "real list"
  shows "\<forall>v \<in> set xs. 0 \<le> v \<Longrightarrow> x \<in> set xs \<Longrightarrow> x \<le> sum_list xs"
proof (induction xs)
  case Nil
  then show ?case by simp
next
  case (Cons y ys)
  then have "0 \<le> sum_list ys"
    by (intro sum_list_nonneg) simp
  then show ?case
    using Cons by auto
qed

lemma greedy_returns_small:
  assumes ne: "base \<noteq> []"
    and sub: "set (dict_keys base) \<subseteq> set (dict_keys cur)"
    and nonneg: "\<forall>v \<in> set (dict_values base). 0 \<le> v"
    and S1: "1 \<le> sum_list (dict_values base)"
    and S2: "sum_list (dict_values base) \<le> 2 ^ 100"
    and cur: "\<forall>k \<in> set (dict_keys base). \<forall>c. getitem cur k = Inr c \<longrightarrow> \<bar>c\<bar> \<le> 2 ^ 100"
    and L: "L < 2 ^ 1000"
    and t1: "- (2 ^ 1000) < t"
    and t2: "real_of_int t \<le> 512 * sum_list (dict_values base)"
  shows "\<exists>c ds r. greedy_next_stat_to_increment base cur L t = Inr (c, ds, r)"
proof -
  let ?S0 = "sum_list (dict_values base)"
  let ?t = "real_of_int t"
  have S0: "0 < ?S0" using S1 by linarith
  have "\<exists>r. compute_common_r (dict_values base) L = Inr r"
  proof (cases "L \<le> 0")
    case True
    then show ?thesis by (simp add: compute_common_r_degenerate)
  next
    case False
    then have L0: "0 < L" by simp
    have "real_of_int L \<le> real_of_int (2 ^ 1000)"
      using L by (intro of_int_le_iff [THEN iffD2]) simp
    then have Lb: "real_of_int L \<le> 2 ^ 1000" by simp
    then have Lr: "real_of_int L < overflow_threshold"
      by (rule le_below_threshold)
    have "(2::real) ^ 100 \<le> 2 ^ 1000" by simp
    with S2 have "?S0 \<le> 2 ^ 1000" by linarith
    then have Sr: "?S0 < overflow_threshold"
      by (rule le_below_threshold)
    have "real_of_int L / ?S0 \<le> real_of_int L / 1"
      using S1 L0 by (intro divide_left_mono) simp_all
    with Lb have "real_of_int L / ?S0 \<le> 2 ^ 1000"
      by linarith
    then have qr: "real_of_int L / ?S0 < overflow_threshold"
      by (rule le_below_threshold)
    show ?thesis
      using compute_common_r_steps [OF L0 Lr S0 Sr qr] by simp
  qed
  then obtain r where r: "compute_common_r (dict_values base) L = Inr r"
    by blast
  have r0: "0 \<le> r"
    using r by (rule compute_common_r_ge_0)
  have "r \<le> 1 / ?S0"
    using r S0 by (rule compute_common_r_le)
  also have "\<dots> \<le> 1"
    using S1 by simp
  finally have r1: "r \<le> 1" .
  have rS: "r * ?S0 \<le> 1"
    using \<open>r \<le> 1 / ?S0\<close> S0 by (simp add: field_simps)
  have tb: "\<bar>?t\<bar> \<le> 2 ^ 1000"
  proof -
    have "real_of_int (- (2 ^ 1000)) \<le> ?t"
      using t1 by (intro of_int_le_iff [THEN iffD2]) simp
    then have lo: "- (2 ^ 1000) \<le> ?t" by simp
    have "512 * ?S0 \<le> 512 * 2 ^ 100"
      using S2 by simp
    also have "\<dots> \<le> (2::real) ^ 1000" by simp
    finally have "?t \<le> 2 ^ 1000" using t2 by linarith
    with lo show ?thesis by simp
  qed
  have rt: "\<bar>r * ?t\<bar> \<le> 2 ^ 1000 \<and> r * ?t \<le> 512"
  proof (cases "0 \<le> ?t")
    case True
    have "r * ?t \<le> r * (512 * ?S0)"
      using t2 r0 by (intro mult_left_mono) simp_all
    also have "\<dots> = 512 * (r * ?S0)" by simp
    also have "\<dots> \<le> 512 * 1"
      using rS by (intro mult_left_mono) simp_all
    finally have hi: "r * ?t \<le> 512" by simp
    have "0 \<le> r * ?t" using r0 True by simp
    moreover have "(512::real) \<le> 2 ^ 1000" by simp
    ultimately show ?thesis using hi by linarith
  next
    case False
    then have neg: "r * ?t \<le> 0"
      using r0 by (simp add: mult_nonneg_nonpos)
    have "\<bar>r * ?t\<bar> = r * \<bar>?t\<bar>"
      using r0 by (simp add: abs_mult)
    also have "\<dots> \<le> 1 * \<bar>?t\<bar>"
      using r1 by (intro mult_right_mono) simp_all
    finally have "\<bar>r * ?t\<bar> \<le> 2 ^ 1000"
      using tb by simp
    then show ?thesis using neg by simp
  qed
  have vb: "\<bar>v\<bar> \<le> 2 ^ 100" if "v \<in> set (dict_values base)" for v
  proof -
    have "0 \<le> v" using nonneg that by blast
    moreover have "v \<le> ?S0"
      using nonneg that by (rule member_le_sum_list_real)
    ultimately show ?thesis using S2 by simp
  qed
  have tv: "target_value v r ?t = Inr (v * exp (r * ?t))" if "v \<in> set (dict_values base)" for v
    using vb [OF that] tb rt by (intro target_value_small) simp_all
  then have "\<forall>v \<in> set (dict_values base). \<exists>s. target_value v r ?t = Inr s"
    by blast
  then obtain S where S: "continuous_targets base r ?t = Inr S"
    using continuous_targets_returns by blast
  have "\<exists>s c d. getitem S k = Inr s \<and> getitem cur k = Inr c \<and> deficit_value s c = Inr d"
    if k: "k \<in> set (dict_keys base)" for k
  proof -
    obtain v where v: "getitem base k = Inr v"
      using getitem_present [OF k] by blast
    then have "(k, v) \<in> set base" by (rule getitem_member)
    then have "v \<in> set (dict_values base)"
      by (force simp: dict_values_def)
    then have "\<bar>v\<bar> \<le> 2 ^ 100" by (rule vb)
    then have sb: "\<bar>v * exp (r * ?t)\<bar> \<le> 2 ^ 912"
      using rt by (intro target_value_small_bound) simp_all
    have s: "getitem S k = Inr (v * exp (r * ?t))"
      using S v by (rule continuous_targets_getitem)
    obtain c where c: "getitem cur k = Inr c"
      using getitem_present [of k cur] k sub by blast
    then have "\<bar>c\<bar> \<le> 2 ^ 100"
      using cur k by blast
    then have "deficit_value (v * exp (r * ?t)) c = Inr (v * exp (r * ?t) - c)"
      using sb by (intro deficit_value_small)
    then show ?thesis using s c by blast
  qed
  then obtain ds where "deficits_comprehension S cur (dict_keys base) = Inr ds"
    using deficits_comprehension_returns [of "dict_keys base" S cur] by blast
  then show ?thesis
    using greedy_after_deficits [OF ne r S] by blast
qed




section \<open>Claims about the greedy selector\<close>




text \<open>
  Claim C10 as stated fails: with \<^verbatim>\<open>base = current = {"Vitality": 11, "Strength": 13}\<close>
  (a non-empty base map whose keys are keys of the current map), \<open>L = 1\<close> and
  \<open>t = 100000\<close> the call does not succeed but raises \<^verbatim>\<open>OverflowError\<close> in
  \<^verbatim>\<open>math.exp\<close>.
\<close>

theorem selector_overflow_counterexample:
  "[(''Vitality'', 11 :: real), (''Strength'', 13)] \<noteq> []
   \<and> set (dict_keys [(''Vitality'', 11), (''Strength'', 13)])
        \<subseteq> set (dict_keys [(''Vitality'', 11), (''Strength'', 13)])
   \<and> greedy_next_stat_to_increment [(''Vitality'', 11), (''Strength'', 13)]
        [(''Vitality'', 11), (''Strength'', 13)] 1 100000 = Inl OverflowError"
proof -
  let ?r = "ln (25 / 24) :: real"
  have up: "ln (25 / 24 :: real) \<le> 25 / 24 - 1"
    by (rule ln_le_minus_one) simp
  have lo: "1 - 1 / (25 / 24) \<le> ln (25 / 24 :: real)"
    by (rule ln_lower) simp
  have r: "compute_common_r (dict_values [(''Vitality'', 11), (''Strength'', 13)]) 1 = Inr ?r"
    using compute_common_r_regular [of 1 "[11, 13]"]
    by (simp add: dict_values_def overflow_threshold_def)
  have a: "\<bar>real_of_int 100000\<bar> < overflow_threshold"
    by (rule below_threshold) simp
  have b: "\<bar>?r * real_of_int 100000\<bar> < overflow_threshold"
    using up lo by (intro below_threshold) simp
  have "target_value 11 ?r (real_of_int 100000) = Inl OverflowError"
    using a b by (rule target_value_overflows) (use lo in simp)
  then show ?thesis
    by (simp add: greedy_next_stat_to_increment_def r)
qed

text \<open>
  Claim C10, amended. For a non-empty base map whose keys all occur in the current map,
  the call raises neither \<^verbatim>\<open>KeyError\<close> nor \<^verbatim>\<open>ValueError\<close>: either it succeeds, and
  then the chosen stat is a key of the base map and the deficit map has exactly the
  keys of the base map, or it raises \<^verbatim>\<open>OverflowError\<close>, or a number leaves the
  finite floats. It succeeds when the base values are non-negative with a sum between
  \<open>1\<close> and \<open>2\<^sup>1\<^sup>0\<^sup>0\<close>, the current values of the base keys are at most \<open>2\<^sup>1\<^sup>0\<^sup>0\<close> in
  magnitude, \<open>L < 2\<^sup>1\<^sup>0\<^sup>0\<^sup>0\<close> and \<open>-2\<^sup>1\<^sup>0\<^sup>0\<^sup>0 < t \<le> 512 * sum\<close>. Keys of the current map
  outside the base map are ignored: two current maps that agree on the keys of the base
  map give the same result. For the empty base map the call raises \<^verbatim>\<open>ValueError\<close>
  (\<^verbatim>\<open>max\<close> of an empty sequence).
\<close>

theorem greedy_succeeds_on_nonempty_base:
  "(base \<noteq> [] \<and> set (dict_keys base) \<subseteq> set (dict_keys cur) \<longrightarrow>
      (\<exists>c ds r. greedy_next_stat_to_increment base cur L t = Inr (c, ds, r)
          \<and> c \<in> set (dict_keys base) \<and> dict_keys ds = dict_keys base)
      \<or> greedy_next_stat_to_increment base cur L t = Inl OverflowError
      \<or> greedy_next_stat_to_increment base cur L t = Inl NonFinite)
   \<and> (base \<noteq> [] \<and> set (dict_keys base) \<subseteq> set (dict_keys cur)
        \<and> (\<forall>v \<in> set (dict_values base). 0 \<le> v)
        \<and> 1 \<le> sum_list (dict_values base) \<and> sum_list (dict_values base) \<le> 2 ^ 100
        \<and> (\<forall>k \<in> set (dict_keys base). \<forall>c. getitem cur k = Inr c \<longrightarrow> \<bar>c\<bar> \<le> 2 ^ 100)
        \<and> L < 2 ^ 1000 \<and> - (2 ^ 1000) < t
        \<and> real_of_int t \<le> 512 * sum_list (dict_values base) \<longrightarrow>
      (\<exists>c ds r. greedy_next_stat_to_increment base cur L t = Inr (c, ds, r)
          \<and> c \<in> set (dict_keys base) \<and> dict_keys ds = dict_keys base))
   \<and> ((\<forall>k \<in> set (dict_keys base). getitem cur k = getitem cur' k) \<longrightarrow>
        greedy_next_stat_to_increment base cur L t = greedy_next_stat_to_increment base cur' L t)
   \<and> greedy_next_stat_to_increment [] cur L t = Inl ValueError"
proof -
  have ok: "c \<in> set (dict_keys base) \<and> dict_keys ds = dict_keys base"
    if "greedy_next_stat_to_increment base cur L t = Inr (c, ds, r)" for c ds r
    using that greedy_choice_is_key greedy_keys by blast
  have one: "base \<noteq> [] \<and> set (dict_keys base) \<subseteq> set (dict_keys cur) \<longrightarrow>
      (\<exists>c ds r. greedy_next_stat_to_increment base cur L t = Inr (c, ds, r)
          \<and> c \<in> set (dict_keys base) \<and> dict_keys ds = dict_keys base)
      \<or> greedy_next_stat_to_increment base cur L t = Inl OverflowError
      \<or> greedy_next_stat_to_increment base cur L t = Inl NonFinite"
    using greedy_outcomes [of base cur L t] ok by blast
  have two: "base \<noteq> [] \<and> set (dict_keys base) \<subseteq> set (dict_keys cur)
        \<and> (\<forall>v \<in> set (dict_values base). 0 \<le> v)
        \<and> 1 \<le> sum_list (dict_values base) \<and> sum_list (dict_values base) \<le> 2 ^ 100
        \<and> (\<forall>k \<in> set (dict_keys base). \<forall>c. getitem cur k = Inr c \<longrightarrow> \<bar>c\<bar> \<le> 2 ^ 100)
        \<and> L < 2 ^ 1000 \<and> - (2 ^ 1000) < t
        \<and> real_of_int t \<le> 512 * sum_list (dict_values base) \<longrightarrow>
      (\<exists>c ds r. greedy_next_stat_to_increment base cur L t = Inr (c, ds, r)
          \<and> c \<in> set (dict_keys base) \<and> dict_keys ds = dict_keys base)"
    using greedy_returns_small [of base cur L t] ok by blast
  have three: "(\<forall>k \<in> set (dict_keys base). getitem cur k = getitem cur' k) \<longrightarrow>
        greedy_next_stat_to_increment base cur L t = greedy_next_stat_to_increment base cur' L t"
  proof
    assume "\<forall>k \<in> set (dict_keys base). getitem cur k = getitem cur' k"
    then have "deficits_comprehension S cur (dict_keys base)
        = deficits_comprehension S cur' (dict_keys base)" for S
      by (rule deficits_comprehension_cong)
    then show "greedy_next_stat_to_increment base cur L t
        = greedy_next_stat_to_increment base cur' L t"
      by (simp add: greedy_next_stat_to_increment_def cong: sum.case_cong)
  qed
  show ?thesis
    using one two three greedy_empty by blast
qed

theorem greedy_succeeds_on_nonempty_base_witness:
  "[(''Vitality'', 11 :: real), (''Strength'', 13)] \<noteq> []
   \<and> set (dict_keys [(''Vitality'', 11), (''Strength'', 13)])
       \<subseteq> set (dict_keys [(''Strength'', 13), (''Luck'', 7), (''Vitality'', 11)])
   \<and> (1::real) \<le> sum_list (dict_values [(''Vitality'', 11), (''Strength'', 13)])
   \<and> sum_list (dict_values [(''Vitality'', 11), (''Strength'', 13)]) \<le> (2::real) ^ 100
   \<and> (2::int) < 2 ^ 1000 \<and> - (2 ^ 1000) < (1::int)
   \<and> real_of_int 1 \<le> 512 * sum_list (dict_values [(''Vitality'', 11), (''Strength'', 13)])
   \<and> (\<exists>c ds r. greedy_next_stat_to_increment [(''Vitality'', 11), (''Strength'', 13)]
          [(''Strength'', 13), (''Luck'', 7), (''Vitality'', 11)] 2 1 = Inr (c, ds, r)
        \<and> c \<in> set (dict_keys [(''Vitality'', 11), (''Strength'', 13)])
        \<and> dict_keys ds = dict_keys [(''Vitality'', 11), (''Strength'', 13)])
   \<and> getitem [(''Strength'', 13), (''Luck'', 7), (''Vitality'', 11)] ''Vitality''
       = getitem [(''Vitality'', 11), (''Strength'', 13)] ''Vitality''
   \<and> getitem [(''Strength'', 13), (''Luck'', 7), (''Vitality'', 11)] ''Strength''
       = getitem [(''Vitality'', 11), (''Strength'', 13)] ''Strength''
   \<and> greedy_next_stat_to_increment [(''Vitality'', 11), (''Strength'', 13)]
          [(''Strength'', 13), (''Luck'', 7), (''Vitality'', 11)] 2 1
      = greedy_next_stat_to_increment [(''Vitality'', 11), (''Strength'', 13)]
          [(''Vitality'', 11), (''Strength'', 13)] 2 1"
proof -
  let ?base = "[(''Vitality'', 11 :: real), (''Strength'', 13)]"
  let ?cur = "[(''Strength'', 13 :: real), (''Luck'', 7), (''Vitality'', 11)]"
  have a: "?base \<noteq> [] \<and> set (dict_keys ?base) \<subseteq> set (dict_keys ?cur)"
    by (simp add: dict_keys_def)
  have b: "\<forall>k \<in> set (dict_keys ?base). getitem ?cur k = getitem ?base k"
    by (simp add: dict_keys_def getitem_def)
  have v: "getitem ?cur ''Vitality'' = getitem ?base ''Vitality''"
    and s: "getitem ?cur ''Strength'' = getitem ?base ''Strength''"
    by (simp_all add: getitem_def)
  have n: "\<forall>v \<in> set (dict_values ?base). 0 \<le> v"
    by (simp add: dict_values_def)
  have s1: "(1::real) \<le> sum_list (dict_values ?base)"
    and s2: "sum_list (dict_values ?base) \<le> (2::real) ^ 100"
    and t2: "real_of_int 1 \<le> 512 * sum_list (dict_values ?base)"
    by (simp_all add: dict_values_def)
  have c: "\<forall>k \<in> set (dict_keys ?base). \<forall>c. getitem ?cur k = Inr c \<longrightarrow> \<bar>c\<bar> \<le> 2 ^ 100"
    by (simp add: dict_keys_def getitem_def)
  have l: "(2::int) < 2 ^ 1000 \<and> - (2 ^ 1000) < (1::int)"
    by simp
  show ?thesis
    using a b v s n s1 s2 t2 c l greedy_succeeds_on_nonempty_base [of ?base ?cur 2 1 ?base]
    by blast
qed

section \<open>The concrete scenarios\<close>

text \<open>
  Bounds on \<open>exp\<close> from its Maclaurin expansion give the decimal places of
  \<open>ln (13 / 12)\<close>, \<open>ln (6 / 5)\<close> and \<open>ln 2\<close> used below.
\<close>

lemma ln_13_12_bounds: "800 / 10000 < ln (13 / 12 :: real)" "ln (13 / 12 :: real) < 801 / 10000"
proof -
  have "exp (800 / 10000 :: real) \<le> 1 + 800 / 10000 + (800 / 10000)\<^sup>2 / 2 + (800 / 10000) ^ 3 / 6 + (800 / 10000) ^ 4 / 8"
    by (rule exp_quartic_upper) simp_all
  also have "\<dots> < 13 / 12"
    by (simp add: power2_eq_square power3_eq_cube power4_eq_xxxx)
  finally have "ln (exp (800 / 10000 :: real)) < ln (13 / 12)"
    by (subst ln_less_cancel_iff) simp_all
  then show "800 / 10000 < ln (13 / 12 :: real)"
    by simp
  have "(13 / 12 :: real) < 1 + 801 / 10000 + (801 / 10000)\<^sup>2 / 2 + (801 / 10000) ^ 3 / 6"
    by (simp add: power2_eq_square power3_eq_cube)
  also have "\<dots> \<le> exp (801 / 10000)"
    by (rule exp_cubic_lower) simp
  finally have "ln (13 / 12 :: real) < ln (exp (801 / 10000))"
    by (subst ln_less_cancel_iff) simp_all
  then show "ln (13 / 12 :: real) < 801 / 10000"
    by simp
qed

lemma ln_6_5_bounds: "1822 / 10000 < ln (6 / 5 :: real)" "ln (6 / 5 :: real) < 1824 / 10000"
proof -
  have "exp (1822 / 10000 :: real) \<le> 1 + 1822 / 10000 + (1822 / 10000)\<^sup>2 / 2 + (1822 / 10000) ^ 3 / 6 + (1822 / 10000) ^ 4 / 8"
    by (rule exp_quartic_upper) simp_all
  also have "\<dots> < 6 / 5"
    by (simp add: power2_eq_square power3_eq_cube power4_eq_xxxx)
  finally have "ln (exp (1822 / 10000 :: real)) < ln (6 / 5)"
    by (subst ln_less_cancel_iff) simp_all
  then show "1822 / 10000 < ln (6 / 5 :: real)"
    by simp
  have "(6 / 5 :: real) < 1 + 1824 / 10000 + (1824 / 10000)\<^sup>2 / 2 + (1824 / 10000) ^ 3 / 6"
    by (simp add: power2_eq_square power3_eq_cube)
  also have "\<dots> \<le> exp (1824 / 10000)"
    by (rule exp_cubic_lower) simp
  finally have "ln (6 / 5 :: real) < ln (exp (1824 / 10000))"
    by (subst ln_less_cancel_iff) simp_all
  then show "ln (6 / 5 :: real) < 1824 / 10000"
    by simp
qed

lemma sqrt_13_12_bounds: "104083 / 100000 < sqrt (13 / 12)" "sqrt (13 / 12) < 104084 / 100000"
proof -
  have "(104083 / 100000 :: real)\<^sup>2 < 13 / 12"
    by (simp add: power2_eq_square)
  then show "104083 / 100000 < sqrt (13 / 12)"
    by (rule real_less_rsqrt)
  have "(13 / 12 :: real) < (104084 / 100000)\<^sup>2"
    by (simp add: power2_eq_square)
  then show "sqrt (13 / 12) < 104084 / 100000"
    by (rule real_less_lsqrt [rotated]) simp
qed

lemma exp_half_ln: "0 < x \<Longrightarrow> exp (ln x / 2) = sqrt x"
proof -
  assume x: "0 < x"
  then have "ln x / 2 = ln (sqrt x)"
    by (simp add: ln_sqrt)
  then show ?thesis
    using x by simp
qed

lemma ln_2_lower: "(1 / 2 :: real) < ln 2"
proof -
  have "exp (1 / 2 :: real) \<le> 1 + 1 / 2 + (1 / 2)\<^sup>2 / 2 + (1 / 2) ^ 3 / 6 + (1 / 2) ^ 4 / 8"
    by (rule exp_quartic_upper) simp_all
  also have "\<dots> < 2"
    by (simp add: power2_eq_square power3_eq_cube power4_eq_xxxx)
  finally have "ln (exp (1 / 2 :: real)) < ln 2"
    by (subst ln_less_cancel_iff) simp_all
  then show ?thesis
    by simp
qed

lemma two_stats_targets:
  "continuous_targets [(''Vitality'', 11), (''Strength'', 13)] (ln (13 / 12) / 2) (real_of_int 1)
     = Inr [(''Vitality'', 11 * sqrt (13 / 12)), (''Strength'', 13 * sqrt (13 / 12))]"
proof -
  let ?r = "ln (13 / 12) / 2 :: real"
  have e: "exp ?r = sqrt (13 / 12)"
    by (rule exp_half_ln) simp
  have tv: "target_value v ?r (real_of_int 1) = Inr (v * exp (?r * real_of_int 1))"
    if "\<bar>v\<bar> \<le> 13" for v
  proof (rule target_value_small)
    have "0 \<le> ?r" "?r \<le> 1"
      using ln_13_12_bounds by simp_all
    then show "\<bar>?r * real_of_int 1\<bar> \<le> 2 ^ 1000" "?r * real_of_int 1 \<le> 512"
      by simp_all
    show "\<bar>v\<bar> \<le> 2 ^ 100" "\<bar>real_of_int 1\<bar> \<le> 2 ^ 1000"
      using that by simp_all
  qed
  show ?thesis
    using tv [of 11] tv [of 13] by (simp add: e)
qed

lemma scenario_two_stats:
  "greedy_next_stat_to_increment [(''Vitality'', 11), (''Strength'', 13)]
       [(''Vitality'', 11), (''Strength'', 13)] 2 1
     = Inr (''Strength'',
            [(''Vitality'', 11 * sqrt (13 / 12) - 11), (''Strength'', 13 * sqrt (13 / 12) - 13)],
            ln (13 / 12) / 2)"
proof -
  let ?base = "[(''Vitality'', 11 :: real), (''Strength'', 13)]"
  let ?s = "sqrt (13 / 12 :: real)"
  have r: "compute_common_r (dict_values ?base) 2 = Inr (ln (13 / 12) / 2)"
    using compute_common_r_regular [of 2 "[11, 13]"]
    by (simp add: dict_values_def overflow_threshold_def)
  note S = two_stats_targets
  have dv: "deficit_value (v * ?s) v = Inr (v * ?s - v)" if "v = 11 \<or> v = 13" for v :: real
  proof (rule deficit_value_small)
    have "\<bar>v * ?s\<bar> \<le> 13 * 2"
      using that sqrt_13_12_bounds by auto
    also have "\<dots> \<le> (2::real) ^ 912" by simp
    finally show "\<bar>v * ?s\<bar> \<le> 2 ^ 912" .
    show "\<bar>v\<bar> \<le> 2 ^ 100" using that by auto
  qed
  have ds: "deficits_comprehension [(''Vitality'', 11 * ?s), (''Strength'', 13 * ?s)] ?base
              (dict_keys ?base)
             = Inr [(''Vitality'', 11 * ?s - 11), (''Strength'', 13 * ?s - 13)]"
    using dv [of 11] dv [of 13] by (simp add: dict_keys_def getitem_def)
  have s1: "1 < ?s"
    using sqrt_13_12_bounds(1) by linarith
  then have gt: "tuple_gt (13 * ?s - 13, 13, ''Strength'') (11 * ?s - 11, 11, ''Vitality'')"
    by simp
  have mx: "py_max (key_fn ?base) [(''Vitality'', 11 * ?s - 11), (''Strength'', 13 * ?s - 13)]
              = Inr (''Strength'', 13 * ?s - 13)"
    using gt by (simp add: py_max_def key_fn_def getitem_def)
  show ?thesis
    by (simp only: greedy_next_stat_to_increment_def r S ds mx sum.case fst_conv)
qed

lemma single_stat_targets:
  "continuous_targets [(''X'', 5)] (ln (6 / 5)) 1 = Inr [(''X'', 6)]"
proof -
  have "target_value 5 (ln (6 / 5)) 1 = Inr (5 * exp (ln (6 / 5) * 1))"
  proof (rule target_value_small)
    have "0 \<le> ln (6 / 5 :: real)" "ln (6 / 5 :: real) \<le> 1"
      using ln_6_5_bounds by simp_all
    then show "\<bar>ln (6 / 5) * 1 :: real\<bar> \<le> 2 ^ 1000" "ln (6 / 5) * 1 \<le> (512 :: real)"
      by simp_all
  qed simp_all
  then show ?thesis by simp
qed

lemma single_stat_rate: "compute_common_r (dict_values [(''X'', 5)]) 1 = Inr (ln (6 / 5))"
  using compute_common_r_regular [of 1 "[5]"]
  by (simp add: dict_values_def overflow_threshold_def)

lemma single_stat_deficits:
  "deficits_comprehension [(''X'', 6)] [(''X'', 5)] (dict_keys [(''X'', 5)]) = Inr [(''X'', 1)]"
proof -
  have "deficit_value 6 5 = Inr (6 - 5)"
    by (rule deficit_value_small) simp_all
  then show ?thesis
    by (simp add: dict_keys_def getitem_def)
qed

lemma single_stat_max: "py_max (key_fn [(''X'', 5)]) [(''X'', 1)] = Inr (''X'', 1)"
  by (simp add: py_max_def key_fn_def getitem_def)

lemma scenario_single_stat:
  "greedy_next_stat_to_increment [(''X'', 5)] [(''X'', 5)] 1 1 = Inr (''X'', [(''X'', 1)], ln (6 / 5))"
proof -
  have S: "continuous_targets [(''X'', 5)] (ln (6 / 5)) (real_of_int 1) = Inr [(''X'', 6)]"
    using single_stat_targets by simp
  show ?thesis
    by (simp only: greedy_next_stat_to_increment_def single_stat_rate S single_stat_deficits
        single_stat_max sum.case fst_conv)
qed

text \<open>
  Claim C4 as stated fails on its second scenario: with \<^verbatim>\<open>base = current = {"X": 5}\<close>,
  \<open>L = 1\<close>, \<open>t = 1\<close> the sum of the base values is \<open>5\<close>, so the rate is
  \<open>ln (1 + 1 / 5) = ln (6 / 5) < 0.2\<close> and not \<open>ln 2 > 0.5\<close>; the target of
  \<^verbatim>\<open>"X"\<close> is \<open>6\<close>, not \<open>10\<close>, and the deficit is \<open>1\<close>, not \<open>5\<close>.
\<close>

theorem single_stat_ln2_counterexample:
  "greedy_next_stat_to_increment [(''X'', 5)] [(''X'', 5)] 1 1 = Inr (''X'', [(''X'', 1)], ln (6 / 5))
   \<and> greedy_next_stat_to_increment [(''X'', 5)] [(''X'', 5)] 1 1 \<noteq> Inr (''X'', [(''X'', 5)], ln 2)
   \<and> continuous_targets [(''X'', 5)] (ln (6 / 5)) 1 = Inr [(''X'', 6)]
   \<and> ln (6 / 5 :: real) < 1 / 5 \<and> (1 / 2 :: real) < ln 2"
proof -
  have a: "ln (6 / 5 :: real) < 1 / 5"
    using ln_6_5_bounds(2) by linarith
  have b: "(1 / 2 :: real) < ln 2"
    by (rule ln_2_lower)
  have "greedy_next_stat_to_increment [(''X'', 5)] [(''X'', 5)] 1 1 \<noteq> Inr (''X'', [(''X'', 5)], ln 2)"
    by (simp add: scenario_single_stat)
  then show ?thesis
    using a b scenario_single_stat single_stat_targets by blast
qed

text \<open>
  Claim C4, amended. With \<^verbatim>\<open>base = current = {"Vitality": 11, "Strength": 13}\<close>,
  \<open>L = 2\<close>, \<open>t = 1\<close> the call returns \<open>r = ln (13 / 12) / 2\<close>, which is within
  \<open>10\<^sup>-\<^sup>4\<close> of \<open>0.04004\<close>, the deficits \<open>11 * sqrt (13 / 12) - 11\<close> (within
  \<open>10\<^sup>-\<^sup>3\<close> of \<open>0.450\<close>) and \<open>13 * sqrt (13 / 12) - 13\<close> (within \<open>2 * 10\<^sup>-\<^sup>3\<close> of
  \<open>0.532\<close>), and the chosen stat \<^verbatim>\<open>"Strength"\<close>. With
  \<^verbatim>\<open>base = current = {"X": 5}\<close>, \<open>L = 1\<close>, \<open>t = 1\<close> it returns
  \<open>r = ln (6 / 5)\<close> (about \<open>0.1823\<close>), the target of \<^verbatim>\<open>"X"\<close> is \<open>6\<close>, the deficit
  is \<open>1\<close>, and the chosen stat is \<^verbatim>\<open>"X"\<close>.
\<close>

theorem greedy_concrete_scenarios:
  "greedy_next_stat_to_increment [(''Vitality'', 11), (''Strength'', 13)]
       [(''Vitality'', 11), (''Strength'', 13)] 2 1
     = Inr (''Strength'',
            [(''Vitality'', 11 * sqrt (13 / 12) - 11), (''Strength'', 13 * sqrt (13 / 12) - 13)],
            ln (13 / 12) / 2)
   \<and> \<bar>ln (13 / 12) / 2 - 4004 / 100000\<bar> < (1 / 10000 :: real)
   \<and> \<bar>(11 * sqrt (13 / 12) - 11) - 450 / 1000\<bar> < (1 / 1000 :: real)
   \<and> \<bar>(13 * sqrt (13 / 12) - 13) - 532 / 1000\<bar> < (2 / 1000 :: real)
   \<and> greedy_next_stat_to_increment [(''X'', 5)] [(''X'', 5)] 1 1
     = Inr (''X'', [(''X'', 1)], ln (6 / 5))
   \<and> \<bar>ln (6 / 5) - 1823 / 10000\<bar> < (2 / 10000 :: real)
   \<and> continuous_targets [(''X'', 5)] (ln (6 / 5)) 1 = Inr [(''X'', 6)]"
proof -
  have r: "\<bar>ln (13 / 12) / 2 - 4004 / 100000\<bar> < (1 / 10000 :: real)"
    using ln_13_12_bounds by linarith
  have dv: "\<bar>(11 * sqrt (13 / 12) - 11) - 450 / 1000\<bar> < (1 / 1000 :: real)"
    using sqrt_13_12_bounds by linarith
  have dst: "\<bar>(13 * sqrt (13 / 12) - 13) - 532 / 1000\<bar> < (2 / 1000 :: real)"
    using sqrt_13_12_bounds by linarith
  have r2: "\<bar>ln (6 / 5) - 1823 / 10000\<bar> < (2 / 10000 :: real)"
    using ln_6_5_bounds by linarith
  show ?thesis
    using r dv dst r2 single_stat_targets scenario_two_stats scenario_single_stat by blast
qed

section \<open>The selector on the store\<close>

text \<open>
  Run on a store, \<^verbatim>\<open>greedy_next_stat_to_increment\<close> only appends objects (the list of
  base values, the target map, the deficit map), and what the caller observes of its
  result is the result of the function on values.
\<close>

lemma dict_at_valid: "dict_at h a = Inr d \<Longrightarrow> a < length h"
  by (simp add: dict_at_def split: if_splits)

lemma dict_at_append: "a < length h \<Longrightarrow> dict_at (h @ h') a = dict_at h a"
  by (simp add: dict_at_def nth_append)

lemma dict_at_new: "dict_at (h @ [PyDict d]) (length h) = Inr d"
  by (simp add: dict_at_def)

lemma list_at_new: "list_at (h @ [PyList vs]) (length h) = Inr vs"
  by (simp add: list_at_def)

lemma compute_common_r_ref_new:
  "compute_common_r_ref (h @ [PyList vs]) (length h) L = compute_common_r vs L"
  by (simp add: compute_common_r_ref_def list_at_new compute_common_r_def)

lemma greedy_ref_unfold:
  assumes b: "dict_at h N0_map = Inr base" and c: "dict_at h current_map = Inr cur"
  shows "greedy_next_stat_to_increment_ref h N0_map current_map L t =
    (case compute_common_r (dict_values base) L of
       Inl e \<Rightarrow> (Inl e, h @ [PyList (dict_values base)])
     | Inr r \<Rightarrow>
        (case continuous_targets base r (real_of_int t) of
           Inl e \<Rightarrow> (Inl e, h @ [PyList (dict_values base)])
         | Inr S \<Rightarrow>
            (case deficits_comprehension S cur (dict_keys base) of
               Inl e \<Rightarrow> (Inl e, h @ [PyList (dict_values base), PyDict S])
             | Inr ds \<Rightarrow>
                (case py_max (key_fn base) ds of
                   Inl e \<Rightarrow> (Inl e, h @ [PyList (dict_values base), PyDict S, PyDict ds])
                 | Inr choice \<Rightarrow>
                     (Inr (fst choice, length h + 2, r),
                      h @ [PyList (dict_values base), PyDict S, PyDict ds])))))"
proof -
  let ?h1 = "h @ [PyList (dict_values base)]"
  have bl: "N0_map < length h" and cl: "current_map < length h"
    using b c by (auto dest: dict_at_valid)
  have b1: "dict_at ?h1 N0_map = Inr base"
    using bl b by (simp add: dict_at_append)
  have start: "greedy_next_stat_to_increment_ref h N0_map current_map L t =
      (case compute_common_r (dict_values base) L of
         Inl e \<Rightarrow> (Inl e, ?h1)
       | Inr r \<Rightarrow>
           (case continuous_targets_ref ?h1 N0_map r (real_of_int t) of
              (Inl e, h2) \<Rightarrow> (Inl e, h2)
            | (Inr S, h2) \<Rightarrow>
                (case deficits_ref h2 S current_map N0_map of
                   Inl e \<Rightarrow> (Inl e, h2)
                 | Inr ds \<Rightarrow>
                     (let (deficits, h3) = alloc (PyDict ds) h2 in
                      (case max_ref h3 deficits N0_map of
                         Inl e \<Rightarrow> (Inl e, h3)
                       | Inr choice \<Rightarrow> (Inr (fst choice, deficits, r), h3))))))"
    unfolding greedy_next_stat_to_increment_ref_def
    by (simp only: b alloc_def Let_def prod.case sum.case compute_common_r_ref_new)
  show ?thesis
  proof (cases "compute_common_r (dict_values base) L")
    case (Inl e)
    then show ?thesis by (simp add: start)
  next
    case r: (Inr r)
    show ?thesis
    proof (cases "continuous_targets base r (real_of_int t)")
      case (Inl e)
      then show ?thesis
        by (simp add: start r continuous_targets_ref_def b1)
    next
      case S: (Inr S)
      let ?h2 = "?h1 @ [PyDict S]"
      have ct: "continuous_targets_ref ?h1 N0_map r (real_of_int t) = (Inr (length ?h1), ?h2)"
        by (simp add: continuous_targets_ref_def b1 S alloc_def)
      have b2: "dict_at ?h2 N0_map = Inr base"
        using bl b1 by (simp add: dict_at_append)
      have c2: "dict_at ?h2 current_map = Inr cur"
        using cl c by (simp add: dict_at_append del: append_assoc)
      have S2: "dict_at ?h2 (length ?h1) = Inr S"
        by (rule dict_at_new)
      have df: "deficits_ref ?h2 (length ?h1) current_map N0_map
                  = deficits_comprehension S cur (dict_keys base)"
        by (simp only: deficits_ref_def b2 c2 S2 sum.case)
      show ?thesis
      proof (cases "deficits_comprehension S cur (dict_keys base)")
        case (Inl e)
        have "greedy_next_stat_to_increment_ref h N0_map current_map L t = (Inl e, ?h2)"
          by (simp only: start r S ct df Inl prod.case sum.case)
        then show ?thesis
          by (simp add: r S Inl)
      next
        case ds: (Inr ds)
        let ?h3 = "?h2 @ [PyDict ds]"
        have b3: "dict_at ?h3 N0_map = Inr base"
          using bl b2 by (simp add: dict_at_append del: append_assoc)
        have d3: "dict_at ?h3 (length ?h2) = Inr ds"
          by (rule dict_at_new)
        have mx: "max_ref ?h3 (length ?h2) N0_map = py_max (key_fn base) ds"
          by (simp only: max_ref_def b3 d3 sum.case)
        have "greedy_next_stat_to_increment_ref h N0_map current_map L t =
            (case py_max (key_fn base) ds of
               Inl e \<Rightarrow> (Inl e, ?h3)
             | Inr choice \<Rightarrow> (Inr (fst choice, length ?h2, r), ?h3))"
          by (simp only: start r S ct df ds alloc_def Let_def prod.case sum.case mx)
        then show ?thesis
          by (simp add: r S ds split: sum.splits)
      qed
    qed
  qed
qed

lemma greedy_ref_run:
  assumes b: "dict_at h N0_map = Inr base" and c: "dict_at h current_map = Inr cur"
  shows "\<exists>res hs. greedy_next_stat_to_increment_ref h N0_map current_map L t = (res, h @ hs)
           \<and> observe (h @ hs) res = greedy_next_stat_to_increment base cur L t
           \<and> (\<forall>choice deficits r. res = Inr (choice, deficits, r) \<longrightarrow>
                 length h \<le> deficits \<and> deficits < length (h @ hs))"
proof (cases "compute_common_r (dict_values base) L")
  case (Inl e)
  then have "greedy_next_stat_to_increment_ref h N0_map current_map L t
      = (Inl e, h @ [PyList (dict_values base)])"
    by (simp add: greedy_ref_unfold [OF b c])
  moreover have "greedy_next_stat_to_increment base cur L t = Inl e"
    by (simp add: greedy_next_stat_to_increment_def Inl)
  ultimately show ?thesis
    by (simp add: observe_def)
next
  case r: (Inr r)
  show ?thesis
  proof (cases "continuous_targets base r (real_of_int t)")
    case (Inl e)
    then have "greedy_next_stat_to_increment_ref h N0_map current_map L t
        = (Inl e, h @ [PyList (dict_values base)])"
      by (simp add: greedy_ref_unfold [OF b c] r)
    moreover have "greedy_next_stat_to_increment base cur L t = Inl e"
      by (simp add: greedy_next_stat_to_increment_def r Inl)
    ultimately show ?thesis
      by (simp add: observe_def)
  next
    case S: (Inr S)
    show ?thesis
    proof (cases "deficits_comprehension S cur (dict_keys base)")
      case (Inl e)
      then have "greedy_next_stat_to_increment_ref h N0_map current_map L t
          = (Inl e, h @ [PyList (dict_values base), PyDict S])"
        by (simp add: greedy_ref_unfold [OF b c] r S)
      moreover have "greedy_next_stat_to_increment base cur L t = Inl e"
        by (simp add: greedy_next_stat_to_increment_def r S Inl)
      ultimately show ?thesis
        by (simp add: observe_def)
    next
      case ds: (Inr ds)
      let ?hs = "[PyList (dict_values base), PyDict S, PyDict ds]"
      show ?thesis
      proof (cases "py_max (key_fn base) ds")
        case (Inl e)
        then have "greedy_next_stat_to_increment_ref h N0_map current_map L t = (Inl e, h @ ?hs)"
          by (simp add: greedy_ref_unfold [OF b c] r S ds)
        moreover have "greedy_next_stat_to_increment base cur L t = Inl e"
          by (simp add: greedy_next_stat_to_increment_def r S ds Inl)
        ultimately show ?thesis
          by (simp add: observe_def)
      next
        case (Inr choice)
        then have run: "greedy_next_stat_to_increment_ref h N0_map current_map L t
            = (Inr (fst choice, length h + 2, r), h @ ?hs)"
          by (simp add: greedy_ref_unfold [OF b c] r S ds)
        have pure: "greedy_next_stat_to_increment base cur L t = Inr (fst choice, ds, r)"
          by (simp add: greedy_next_stat_to_increment_def r S ds Inr)
        have "dict_at (h @ ?hs) (length h + 2) = Inr ds"
          by (simp add: dict_at_def nth_append)
        then have obs: "observe (h @ ?hs) (Inr (fst choice, length h + 2, r))
            = greedy_next_stat_to_increment base cur L t"
          by (simp add: observe_def pure)
        show ?thesis
          using run obs by (intro exI conjI) (assumption, assumption, simp)
      qed
    qed
  qed
qed

lemma single_stat_run:
  "greedy_next_stat_to_increment_ref (PyDict [(''X'', 5)] # PyDict [(''X'', 5)] # hs) 0 1 1 1
     = (Inr (''X'', length hs + 4, ln (6 / 5)),
        PyDict [(''X'', 5)] # PyDict [(''X'', 5)] # hs @ [PyList [5], PyDict [(''X'', 6)], PyDict [(''X'', 1)]])"
proof -
  let ?h = "PyDict [(''X'', 5)] # PyDict [(''X'', 5)] # hs"
  have b: "dict_at ?h 0 = Inr [(''X'', 5)]" and c: "dict_at ?h 1 = Inr [(''X'', 5)]"
    by (simp_all add: dict_at_def)
  have S: "continuous_targets [(''X'', 5)] (ln (6 / 5)) (real_of_int 1) = Inr [(''X'', 6)]"
    using single_stat_targets by simp
  note run = greedy_ref_unfold [OF b c, of 1 1]
  show ?thesis
    unfolding run
    by (simp only: single_stat_rate S single_stat_deficits single_stat_max sum.case fst_conv)
       (simp add: dict_values_def)
qed

text \<open>
  Claim C9. \<^verbatim>\<open>greedy_next_stat_to_increment\<close> changes neither of its argument
  dictionaries: after the call the base map and the current map hold the contents they
  held before (also when both arguments are the same object), every object that existed
  before the call is unchanged, and the returned deficit map is a new object, different
  from both arguments.
\<close>

theorem greedy_no_mutation:
  assumes "dict_at h N0_map = Inr base" and "dict_at h current_map = Inr cur"
    and "greedy_next_stat_to_increment_ref h N0_map current_map L t = (res, h')"
  shows "dict_at h' N0_map = Inr base \<and> dict_at h' current_map = Inr cur
     \<and> take (length h) h' = h
     \<and> (\<forall>choice deficits r. res = Inr (choice, deficits, r) \<longrightarrow>
           length h \<le> deficits \<and> deficits < length h'
           \<and> deficits \<noteq> N0_map \<and> deficits \<noteq> current_map)"
proof -
  from greedy_ref_run [OF assms(1,2), of L t] assms(3)
  obtain hs where h': "h' = h @ hs"
    and fresh: "\<forall>choice deficits r. res = Inr (choice, deficits, r) \<longrightarrow>
                 length h \<le> deficits \<and> deficits < length (h @ hs)"
    by auto
  have bl: "N0_map < length h" and cl: "current_map < length h"
    using assms(1,2) by (auto dest: dict_at_valid)
  have "dict_at h' N0_map = Inr base"
    using bl assms(1) by (simp add: h' dict_at_append)
  moreover have "dict_at h' current_map = Inr cur"
    using cl assms(2) by (simp add: h' dict_at_append)
  moreover have "take (length h) h' = h"
    by (simp add: h')
  moreover have "length h \<le> deficits \<and> deficits < length h'
           \<and> deficits \<noteq> N0_map \<and> deficits \<noteq> current_map"
    if "res = Inr (choice, deficits, r)" for choice deficits r
    using fresh that bl cl h' by auto
  ultimately show ?thesis
    by blast
qed

theorem greedy_no_mutation_witness:
  "dict_at [PyDict [(''X'', 5)], PyDict [(''X'', 5)]] 0 = Inr [(''X'', 5)]
   \<and> dict_at [PyDict [(''X'', 5)], PyDict [(''X'', 5)]] 1 = Inr [(''X'', 5)]
   \<and> greedy_next_stat_to_increment_ref [PyDict [(''X'', 5)], PyDict [(''X'', 5)]] 0 1 1 1
       = (Inr (''X'', 4, ln (6 / 5)),
          [PyDict [(''X'', 5)], PyDict [(''X'', 5)], PyList [5], PyDict [(''X'', 6)], PyDict [(''X'', 1)]])
   \<and> dict_at [PyDict [(''X'', 5)], PyDict [(''X'', 5)], PyList [5], PyDict [(''X'', 6)], PyDict [(''X'', 1)]] 0
       = Inr [(''X'', 5)]
   \<and> dict_at [PyDict [(''X'', 5)], PyDict [(''X'', 5)], PyList [5], PyDict [(''X'', 6)], PyDict [(''X'', 1)]] 1
       = Inr [(''X'', 5)]
   \<and> take (length [PyDict [(''X'', 5)], PyDict [(''X'', 5)]])
        [PyDict [(''X'', 5)], PyDict [(''X'', 5)], PyList [5], PyDict [(''X'', 6)], PyDict [(''X'', 1)]]
       = [PyDict [(''X'', 5)], PyDict [(''X'', 5)]]
   \<and> length [PyDict [(''X'', 5)], PyDict [(''X'', 5)]] \<le> (4::nat)"
proof -
  let ?h = "[PyDict [(''X'', 5)], PyDict [(''X'', 5)]]"
  let ?h' = "[PyDict [(''X'', 5)], PyDict [(''X'', 5)], PyList [5], PyDict [(''X'', 6)], PyDict [(''X'', 1)]]"
  have a: "dict_at ?h 0 = Inr [(''X'', 5)]"
    by (simp add: dict_at_def)
  have b: "dict_at ?h 1 = Inr [(''X'', 5)]"
    by (simp add: dict_at_def)
  have c: "greedy_next_stat_to_increment_ref ?h 0 1 1 1 = (Inr (''X'', 4, ln (6 / 5)), ?h')"
    using single_stat_run [of "[]"] by simp
  show ?thesis
    using a b c greedy_no_mutation [OF a b c] by simp
qed

text \<open>
  Claim C8. \<^verbatim>\<open>greedy_next_stat_to_increment\<close> is deterministic: a second call with the
  same arguments, made in the store the first call left behind, yields the same chosen
  stat, the same contents of the deficit map and the same rate; so does a call in any
  other store whose argument dictionaries have the same contents. Nothing but the
  contents of the two maps, \<open>L\<close> and \<open>t\<close> enters the result.
\<close>

theorem greedy_deterministic:
  assumes "dict_at h N0_map = Inr base" and "dict_at h current_map = Inr cur"
    and "dict_at g N0_map' = Inr base" and "dict_at g current_map' = Inr cur"
    and "greedy_next_stat_to_increment_ref h N0_map current_map L t = (res, h')"
    and "greedy_next_stat_to_increment_ref h' N0_map current_map L t = (res2, h2)"
    and "greedy_next_stat_to_increment_ref g N0_map' current_map' L t = (res', g')"
  shows "observe h' res = observe h2 res2 \<and> observe h' res = observe g' res'
     \<and> observe h' res = greedy_next_stat_to_increment base cur L t"
proof -
  have one: "observe h' res = greedy_next_stat_to_increment base cur L t"
    using greedy_ref_run [OF assms(1,2), of L t] assms(5) by auto
  obtain hs where h': "h' = h @ hs"
    using greedy_ref_run [OF assms(1,2), of L t] assms(5) by auto
  have bl: "N0_map < length h" and cl: "current_map < length h"
    using assms(1,2) by (auto dest: dict_at_valid)
  have b': "dict_at h' N0_map = Inr base"
    using bl assms(1) by (simp add: h' dict_at_append)
  have c': "dict_at h' current_map = Inr cur"
    using cl assms(2) by (simp add: h' dict_at_append)
  have two: "observe h2 res2 = greedy_next_stat_to_increment base cur L t"
    using greedy_ref_run [OF b' c', of L t] assms(6) by auto
  have three: "observe g' res' = greedy_next_stat_to_increment base cur L t"
    using greedy_ref_run [OF assms(3,4), of L t] assms(7) by auto
  show ?thesis
    using one two three by simp
qed

theorem greedy_deterministic_witness:
  "dict_at [PyDict [(''X'', 5)], PyDict [(''X'', 5)]] 0 = Inr [(''X'', 5)]
   \<and> dict_at [PyDict [(''X'', 5)], PyDict [(''X'', 5)]] 1 = Inr [(''X'', 5)]
   \<and> dict_at [PyList [7], PyDict [(''X'', 5)]] 1 = Inr [(''X'', 5)]
   \<and> greedy_next_stat_to_increment_ref [PyDict [(''X'', 5)], PyDict [(''X'', 5)]] 0 1 1 1
       = (Inr (''X'', 4, ln (6 / 5)),
          [PyDict [(''X'', 5)], PyDict [(''X'', 5)], PyList [5], PyDict [(''X'', 6)], PyDict [(''X'', 1)]])
   \<and> greedy_next_stat_to_increment_ref
        [PyDict [(''X'', 5)], PyDict [(''X'', 5)], PyList [5], PyDict [(''X'', 6)], PyDict [(''X'', 1)]] 0 1 1 1
       = (Inr (''X'', 7, ln (6 / 5)),
          [PyDict [(''X'', 5)], PyDict [(''X'', 5)], PyList [5], PyDict [(''X'', 6)], PyDict [(''X'', 1)],
           PyList [5], PyDict [(''X'', 6)], PyDict [(''X'', 1)]])
   \<and> greedy_next_stat_to_increment_ref [PyList [7], PyDict [(''X'', 5)]] 1 1 1 1
       = (Inr (''X'', 4, ln (6 / 5)),
          [PyList [7], PyDict [(''X'', 5)], PyList [5], PyDict [(''X'', 6)], PyDict [(''X'', 1)]])
   \<and> observe [PyDict [(''X'', 5)], PyDict [(''X'', 5)], PyList [5], PyDict [(''X'', 6)], PyDict [(''X'', 1)]]
        (Inr (''X'', 4, ln (6 / 5)))
      = observe [PyDict [(''X'', 5)], PyDict [(''X'', 5)], PyList [5], PyDict [(''X'', 6)], PyDict [(''X'', 1)],
           PyList [5], PyDict [(''X'', 6)], PyDict [(''X'', 1)]] (Inr (''X'', 7, ln (6 / 5)))
   \<and> observe [PyDict [(''X'', 5)], PyDict [(''X'', 5)], PyList [5], PyDict [(''X'', 6)], PyDict [(''X'', 1)]]
        (Inr (''X'', 4, ln (6 / 5)))
      = observe [PyList [7], PyDict [(''X'', 5)], PyList [5], PyDict [(''X'', 6)], PyDict [(''X'', 1)]]
          (Inr (''X'', 4, ln (6 / 5)))
   \<and> observe [PyDict [(''X'', 5)], PyDict [(''X'', 5)], PyList [5], PyDict [(''X'', 6)], PyDict [(''X'', 1)]]
        (Inr (''X'', 4, ln (6 / 5)))
      = greedy_next_stat_to_increment [(''X'', 5)] [(''X'', 5)] 1 1"
proof -
  let ?h = "[PyDict [(''X'', 5)], PyDict [(''X'', 5)]]"
  let ?h' = "[PyDict [(''X'', 5)], PyDict [(''X'', 5)], PyList [5], PyDict [(''X'', 6)], PyDict [(''X'', 1)]]"
  let ?h2 = "[PyDict [(''X'', 5)], PyDict [(''X'', 5)], PyList [5], PyDict [(''X'', 6)], PyDict [(''X'', 1)],
           PyList [5], PyDict [(''X'', 6)], PyDict [(''X'', 1)]]"
  let ?g = "[PyList [7], PyDict [(''X'', 5)]]"
  let ?g' = "[PyList [7], PyDict [(''X'', 5)], PyList [5], PyDict [(''X'', 6)], PyDict [(''X'', 1)]]"
  have a: "dict_at ?h 0 = Inr [(''X'', 5)]"
    by (simp add: dict_at_def)
  have b: "dict_at ?h 1 = Inr [(''X'', 5)]"
    by (simp add: dict_at_def)
  have c: "dict_at ?g 1 = Inr [(''X'', 5)]"
    by (simp add: dict_at_def)
  have r1: "greedy_next_stat_to_increment_ref ?h 0 1 1 1 = (Inr (''X'', 4, ln (6 / 5)), ?h')"
    using single_stat_run [of "[]"] by simp
  have r2: "greedy_next_stat_to_increment_ref ?h' 0 1 1 1 = (Inr (''X'', 7, ln (6 / 5)), ?h2)"
    using single_stat_run [of "[PyList [5], PyDict [(''X'', 6)], PyDict [(''X'', 1)]]"] by simp
  have S: "continuous_targets [(''X'', 5)] (ln (6 / 5)) (real_of_int 1) = Inr [(''X'', 6)]"
    using single_stat_targets by simp
  note run = greedy_ref_unfold [OF c c, of 1 1]
  have r3: "greedy_next_stat_to_increment_ref ?g 1 1 1 1 = (Inr (''X'', 4, ln (6 / 5)), ?g')"
    unfolding run
    by (simp only: single_stat_rate S single_stat_deficits single_stat_max sum.case fst_conv)
       (simp add: dict_values_def)
  show ?thesis
    using a b c r1 r2 r3 greedy_deterministic [OF a b c c r1 r2 r3] by blast
qed

end
